theory Spec2Isabelle
  imports Complex_Main "HOL-Library.AList"
begin

section \<open>The chunk-to-region aggregation layer of the renderer\<close>

text \<open>
  This theory embeds \<^verbatim>\<open>render_region.py\<close>: the classes \<^verbatim>\<open>RenderRegion\<close> and
  \<^verbatim>\<open>ChunkManager\<close>. Python objects are records, the two dictionaries are association
  lists in insertion order (what a Python \<^verbatim>\<open>dict\<close> iterates in), the queue is a list
  with its head at the front, and every call that leaves the file (the OpenGL functions,
  the shader provider and the methods of \<^verbatim>\<open>RenderChunk\<close>) is appended to a log of
  calls in the order the code makes them. All of it runs on one thread here.
\<close>

subsection \<open>Data\<close>

type_synonym coords = "int \<times> int"

datatype error =
    ZeroDivisionError  \<comment> \<open>\<^verbatim>\<open>//\<close> with a region size of 0\<close>
  | ValueError         \<comment> \<open>\<^verbatim>\<open>numpy.concatenate\<close> of an empty sequence\<close>
  | KeyError           \<comment> \<open>\<^verbatim>\<open>del\<close> of a key that is not in the dictionary\<close>
  | Blocked            \<comment> \<open>\<^verbatim>\<open>Queue.get\<close> on an empty queue never returns\<close>

text \<open>
  Modelled from the spec: the class \<^verbatim>\<open>RenderChunk\<close> (\<^verbatim>\<open>render_chunk.py\<close> is not among the
  sources). A unit is identified by its chunk coordinate and carries a vertex payload
  that is read-only once built; \<open>uid\<close> stands for the identity of the Python object, so
  that two units for one coordinate can be told apart. The payload is an array of
  32-bit floats of which the code only takes the size and the concatenation; its
  elements are reals here. The methods \<^verbatim>\<open>draw\<close> and \<^verbatim>\<open>unload\<close> of a unit are calls
  in the log.
\<close>

record RenderChunk =
  uid :: nat
  cx :: int
  cz :: int
  chunk_lod0 :: "real list"

text \<open>
  Transformation matrices are floating-point arrays; they are kept symbolic. The region
  transform is \<^verbatim>\<open>numpy.eye(4)\<close> with the entries \<^verbatim>\<open>[3, [0, 2]]\<close> set.
\<close>

datatype matrix =
    Camera nat
  | Translation int int
  | MatMul matrix matrix

datatype shader = Shader string string

datatype uniform = UniformLocation "shader option" string

datatype call =
    glGenVertexArrays nat
  | glGenBuffers nat
  | glBindVertexArray "nat option"
  | glBindBuffer "nat option"
  | glBufferData nat "real list"
  | glVertexAttribPointer nat nat nat nat
  | glEnableVertexAttribArray nat
  | get_shader string string
  | glGetUniformLocation "shader option" string
  | glUseProgram "shader option"
  | glUniformMatrix4fv "uniform option" matrix
  | glDrawArrays nat nat
  | glDeleteVertexArrays nat
  | chunk_draw RenderChunk matrix
  | chunk_unload RenderChunk

text \<open>
  The OpenGL context: the next unused object name (\<^verbatim>\<open>glGen*\<close> hands out fresh names)
  and the calls made so far, oldest first.
\<close>

record gl_context =
  next_name :: nat
  calls :: "call list"

definition emit :: "call list \<Rightarrow> gl_context \<Rightarrow> gl_context" where
  "emit cs g = g\<lparr>calls := calls g @ cs\<rparr>"

definition gl_init :: gl_context where
  "gl_init = \<lparr>next_name = 1, calls = []\<rparr>"

record RenderRegion =
  region_identifier :: string
  rx :: int
  rz :: int
  chunks :: "(coords \<times> RenderChunk) list"
  manual_chunks :: "RenderChunk list"
  shader :: "shader option"
  trm_mat_loc :: "uniform option"
  vao :: "nat option"
  vbo :: "nat option"
  draw_count :: nat
  region_transform :: matrix

record ChunkManager =
  manager_identifier :: string
  region_size :: int
  regions :: "(coords \<times> RenderRegion) list"
  chunk_temp :: "RenderChunk list"
  chunk_temp_set :: "coords set"

subsection \<open>RenderRegion\<close>

definition RenderRegion_init :: "int \<Rightarrow> int \<Rightarrow> int \<Rightarrow> string \<Rightarrow> RenderRegion" where
  "RenderRegion_init x z rsize ident =
     \<lparr>region_identifier = ident, rx = x, rz = z, chunks = [], manual_chunks = [],
      shader = None, trm_mat_loc = None, vao = None, vbo = None, draw_count = 0,
      region_transform = Translation (x * rsize * 16) (z * rsize * 16)\<rparr>"

definition RenderRegion_contains :: "RenderRegion \<Rightarrow> coords \<Rightarrow> bool" where
  "RenderRegion_contains r item = (map_of (chunks r) item \<noteq> None)"

definition RenderRegion_add_render_chunk :: "RenderRegion \<Rightarrow> RenderChunk \<Rightarrow> RenderRegion" where
  "RenderRegion_add_render_chunk r render_chunk =
     r\<lparr>chunks := AList.update (cx render_chunk, cz render_chunk) render_chunk (chunks r),
       manual_chunks := manual_chunks r @ [render_chunk]\<rparr>"

definition setup_calls :: "nat \<Rightarrow> nat \<Rightarrow> string \<Rightarrow> call list" where
  "setup_calls a b ident =
     [glGenVertexArrays a, glBindVertexArray (Some a),
      glGenBuffers b, glBindBuffer (Some b),
      glBufferData 0 [],
      glVertexAttribPointer 0 3 40 0, glEnableVertexAttribArray 0,
      glVertexAttribPointer 1 2 40 12, glEnableVertexAttribArray 1,
      glVertexAttribPointer 2 4 40 20, glEnableVertexAttribArray 2,
      glVertexAttribPointer 3 1 40 36, glEnableVertexAttribArray 3,
      glBindVertexArray (Some 0),
      get_shader ident ''render_chunk'',
      glGetUniformLocation (Some (Shader ident ''render_chunk'')) ''transformation_matrix'']"

definition RenderRegion_setup :: "gl_context \<Rightarrow> RenderRegion \<Rightarrow> gl_context \<times> RenderRegion" where
  "RenderRegion_setup g r =
     (if vao r = None then
        (let a = next_name g; b = next_name g + 1;
             sh = Shader (region_identifier r) ''render_chunk''
         in (emit (setup_calls a b (region_identifier r)) (g\<lparr>next_name := next_name g + 2\<rparr>),
             r\<lparr>vao := Some a, vbo := Some b, shader := Some sh,
               trm_mat_loc := Some (UniformLocation (Some sh) ''transformation_matrix'')\<rparr>))
      else (g, r))"

definition merged_verts :: "RenderRegion \<Rightarrow> real list" where
  "merged_verts r = concat (map (chunk_lod0 \<circ> snd) (chunks r))"

definition merge_calls :: "RenderRegion \<Rightarrow> call list" where
  "merge_calls r =
     [glBindVertexArray (vao r), glBindBuffer (vbo r),
      glBufferData (length (merged_verts r) * 4) (merged_verts r)]
     @ map chunk_unload (manual_chunks r)"

definition RenderRegion_merge :: "gl_context \<Rightarrow> RenderRegion \<Rightarrow> error + gl_context \<times> RenderRegion" where
  "RenderRegion_merge g r =
     (case RenderRegion_setup g r of (g1, r1) \<Rightarrow>
        if manual_chunks r1 \<noteq> [] then
          (if chunks r1 = [] then Inl ValueError
           else Inr (emit (merge_calls r1) g1,
                     r1\<lparr>draw_count := length (merged_verts r1) div 10, manual_chunks := []\<rparr>))
        else Inr (g1, r1))"

definition unload_calls :: "RenderRegion \<Rightarrow> call list" where
  "unload_calls r =
     (case vao r of None \<Rightarrow> [] | Some a \<Rightarrow> [glDeleteVertexArrays a])
     @ map (chunk_unload \<circ> snd) (chunks r)"

definition RenderRegion_unload :: "gl_context \<Rightarrow> RenderRegion \<Rightarrow> gl_context \<times> RenderRegion" where
  "RenderRegion_unload g r = (emit (unload_calls r) g, r\<lparr>vao := None, chunks := []\<rparr>)"

definition draw_calls :: "matrix \<Rightarrow> RenderRegion \<Rightarrow> call list" where
  "draw_calls tm r =
     [glUseProgram (shader r), glUniformMatrix4fv (trm_mat_loc r) tm,
      glBindVertexArray (vao r), glDrawArrays 0 (draw_count r)]
     @ map (\<lambda>chunk. chunk_draw chunk tm) (manual_chunks r)"

definition RenderRegion_draw :: "matrix \<Rightarrow> gl_context \<Rightarrow> RenderRegion \<Rightarrow> gl_context \<times> RenderRegion" where
  "RenderRegion_draw transformation_matrix g r =
     (case RenderRegion_setup g r of (g1, r1) \<Rightarrow>
        (emit (draw_calls (MatMul (region_transform r1) transformation_matrix) r1) g1, r1))"

subsection \<open>ChunkManager\<close>

definition ChunkManager_init :: "string \<Rightarrow> int \<Rightarrow> ChunkManager" where
  "ChunkManager_init ident rsize =
     \<lparr>manager_identifier = ident, region_size = rsize, regions = [],
      chunk_temp = [], chunk_temp_set = {}\<rparr>"

definition ChunkManager_add_render_chunk :: "ChunkManager \<Rightarrow> RenderChunk \<Rightarrow> ChunkManager" where
  "ChunkManager_add_render_chunk m render_chunk =
     m\<lparr>chunk_temp := chunk_temp m @ [render_chunk],
       chunk_temp_set := insert (cx render_chunk, cz render_chunk) (chunk_temp_set m)\<rparr>"

text \<open>Python's \<^verbatim>\<open>//\<close> on integers rounds towards minus infinity, as \<open>div\<close> on \<open>int\<close> does.\<close>

definition region_coords :: "ChunkManager \<Rightarrow> int \<Rightarrow> int \<Rightarrow> error + coords" where
  "region_coords m x z =
     (if region_size m = 0 then Inl ZeroDivisionError
      else Inr (x div region_size m, z div region_size m))"

text \<open>
  One pass of the loop of \<^verbatim>\<open>_merge_chunk_temp\<close>: take the unit at the head of the queue,
  create its region when the map has none, and add the unit to the region in the map.
\<close>

definition route_chunk :: "ChunkManager \<Rightarrow> RenderChunk \<Rightarrow> coords \<Rightarrow> (coords \<times> RenderRegion) list" where
  "route_chunk m render_chunk rc =
     AList.map_entry rc (\<lambda>region. RenderRegion_add_render_chunk region render_chunk)
       (if map_of (regions m) rc = None
        then AList.update rc (RenderRegion_init (fst rc) (snd rc) (region_size m) (manager_identifier m))
               (regions m)
        else regions m)"

fun merge_chunk_temp_loop :: "nat \<Rightarrow> ChunkManager \<Rightarrow> error + ChunkManager" where
  "merge_chunk_temp_loop 0 m = Inr m"
| "merge_chunk_temp_loop (Suc n) m =
     (case chunk_temp m of
        [] \<Rightarrow> Inl Blocked
      | render_chunk # rest \<Rightarrow>
          (case region_coords m (cx render_chunk) (cz render_chunk) of
             Inl e \<Rightarrow> Inl e
           | Inr rc \<Rightarrow>
               merge_chunk_temp_loop n
                 (m\<lparr>chunk_temp := rest, regions := route_chunk m render_chunk rc\<rparr>)))"

definition merge_chunk_temp :: "ChunkManager \<Rightarrow> error + ChunkManager" where
  "merge_chunk_temp m =
     (case merge_chunk_temp_loop (length (chunk_temp m)) m of
        Inl e \<Rightarrow> Inl e
      | Inr m1 \<Rightarrow> Inr (m1\<lparr>chunk_temp_set := {}\<rparr>))"

definition ChunkManager_contains :: "ChunkManager \<Rightarrow> coords \<Rightarrow> error + bool" where
  "ChunkManager_contains m chunk_coords =
     (case region_coords m (fst chunk_coords) (snd chunk_coords) of
        Inl e \<Rightarrow> Inl e
      | Inr rc \<Rightarrow>
          Inr (chunk_coords \<in> chunk_temp_set m \<or>
               (case map_of (regions m) rc of
                  None \<Rightarrow> False
                | Some region \<Rightarrow> RenderRegion_contains region chunk_coords)))"

fun draw_regions ::
  "matrix \<Rightarrow> gl_context \<Rightarrow> (coords \<times> RenderRegion) list \<Rightarrow> gl_context \<times> (coords \<times> RenderRegion) list" where
  "draw_regions tm g [] = (g, [])"
| "draw_regions tm g ((k, region) # rest) =
     (case RenderRegion_draw tm g region of (g1, region1) \<Rightarrow>
        (case draw_regions tm g1 rest of (g2, rest1) \<Rightarrow> (g2, (k, region1) # rest1)))"

definition ChunkManager_draw ::
  "matrix \<Rightarrow> gl_context \<Rightarrow> ChunkManager \<Rightarrow> error + gl_context \<times> ChunkManager" where
  "ChunkManager_draw camera_transform g m =
     (case draw_regions camera_transform g (regions m) of (g1, regs) \<Rightarrow>
        (case merge_chunk_temp (m\<lparr>regions := regs\<rparr>) of
           Inl e \<Rightarrow> Inl e
         | Inr m1 \<Rightarrow> Inr (g1, m1)))"

fun unload_regions ::
  "gl_context \<Rightarrow> (coords \<times> RenderRegion) list \<Rightarrow> gl_context \<times> (coords \<times> RenderRegion) list" where
  "unload_regions g [] = (g, [])"
| "unload_regions g ((k, region) # rest) =
     (case RenderRegion_unload g region of (g1, region1) \<Rightarrow>
        (case unload_regions g1 rest of (g2, rest1) \<Rightarrow> (g2, (k, region1) # rest1)))"

definition in_box :: "coords \<Rightarrow> coords \<Rightarrow> RenderRegion \<Rightarrow> bool" where
  "in_box lo hi region =
     (fst lo \<le> rx region \<and> rx region \<le> fst hi \<and> snd lo \<le> rz region \<and> rz region \<le> snd hi)"

text \<open>
  The first loop of the eviction pass: the regions as the loop leaves them (each merged or
  unloaded in place) and \<^verbatim>\<open>delete_regions\<close>.
\<close>

fun evict_regions ::
  "coords \<Rightarrow> coords \<Rightarrow> gl_context \<Rightarrow> (coords \<times> RenderRegion) list \<Rightarrow>
   error + gl_context \<times> (coords \<times> RenderRegion) list \<times> coords list" where
  "evict_regions lo hi g [] = Inr (g, [], [])"
| "evict_regions lo hi g ((k, region) # rest) =
     (if in_box lo hi region then
        (case RenderRegion_merge g region of
           Inl e \<Rightarrow> Inl e
         | Inr (g1, region1) \<Rightarrow>
             (case evict_regions lo hi g1 rest of
                Inl e \<Rightarrow> Inl e
              | Inr (g2, rest1, delete_regions) \<Rightarrow> Inr (g2, (k, region1) # rest1, delete_regions)))
      else
        (case RenderRegion_unload g region of (g1, region1) \<Rightarrow>
           (case evict_regions lo hi g1 rest of
              Inl e \<Rightarrow> Inl e
            | Inr (g2, rest1, delete_regions) \<Rightarrow>
                Inr (g2, (k, region1) # rest1, (rx region1, rz region1) # delete_regions))))"

fun delete_keys :: "coords list \<Rightarrow> (coords \<times> RenderRegion) list \<Rightarrow> error + (coords \<times> RenderRegion) list" where
  "delete_keys [] regs = Inr regs"
| "delete_keys (k # ks) regs =
     (if map_of regs k = None then Inl KeyError else delete_keys ks (AList.delete k regs))"

definition ChunkManager_unload ::
  "(int \<times> int \<times> int \<times> int) option \<Rightarrow> gl_context \<Rightarrow> ChunkManager \<Rightarrow> error + gl_context \<times> ChunkManager" where
  "ChunkManager_unload safe_area g m =
     (case safe_area of
        None \<Rightarrow>
          (case unload_regions g (regions m) of (g1, regs) \<Rightarrow>
             Inr (g1, m\<lparr>chunk_temp := drop (length (chunk_temp m)) (chunk_temp m),
                        chunk_temp_set := {}, regions := []\<rparr>))
      | Some (x0, z0, x1, z1) \<Rightarrow>
          (case region_coords m x0 z0 of
             Inl e \<Rightarrow> Inl e
           | Inr lo \<Rightarrow>
               (case region_coords m x1 z1 of
                  Inl e \<Rightarrow> Inl e
                | Inr hi \<Rightarrow>
                    (case evict_regions lo hi g (regions m) of
                       Inl e \<Rightarrow> Inl e
                     | Inr (g1, regs, delete_regions) \<Rightarrow>
                         (case delete_keys delete_regions regs of
                            Inl e \<Rightarrow> Inl e
                          | Inr regs1 \<Rightarrow> Inr (g1, m\<lparr>regions := regs1\<rparr>))))))"

subsection \<open>Sequences of operations\<close>

datatype region_op = AddUnit RenderChunk | Merge | Draw matrix | Unload

fun region_step :: "region_op \<Rightarrow> gl_context \<times> RenderRegion \<Rightarrow> error + gl_context \<times> RenderRegion" where
  "region_step (AddUnit u) (g, r) = Inr (g, RenderRegion_add_render_chunk r u)"
| "region_step Merge (g, r) = RenderRegion_merge g r"
| "region_step (Draw tm) (g, r) = Inr (RenderRegion_draw tm g r)"
| "region_step Unload (g, r) = Inr (RenderRegion_unload g r)"

fun region_run :: "region_op list \<Rightarrow> gl_context \<times> RenderRegion \<Rightarrow> error + gl_context \<times> RenderRegion" where
  "region_run [] s = Inr s"
| "region_run (x # xs) s = (case region_step x s of Inl e \<Rightarrow> Inl e | Inr s1 \<Rightarrow> region_run xs s1)"

datatype manager_op =
    Submit RenderChunk
  | Frame matrix
  | Evict "(int \<times> int \<times> int \<times> int) option"

fun manager_step :: "manager_op \<Rightarrow> gl_context \<times> ChunkManager \<Rightarrow> error + gl_context \<times> ChunkManager" where
  "manager_step (Submit u) (g, m) = Inr (g, ChunkManager_add_render_chunk m u)"
| "manager_step (Frame tm) (g, m) = ChunkManager_draw tm g m"
| "manager_step (Evict safe_area) (g, m) = ChunkManager_unload safe_area g m"

fun manager_run :: "manager_op list \<Rightarrow> gl_context \<times> ChunkManager \<Rightarrow> error + gl_context \<times> ChunkManager" where
  "manager_run [] s = Inr s"
| "manager_run (x # xs) s = (case manager_step x s of Inl e \<Rightarrow> Inl e | Inr s1 \<Rightarrow> manager_run xs s1)"

subsection \<open>Invariants and observations\<close>

definition chunk_coords :: "RenderChunk \<Rightarrow> coords" where
  "chunk_coords u = (cx u, cz u)"

text \<open>The pending unit added last for a coordinate, if there is one.\<close>

definition latest_pending :: "RenderRegion \<Rightarrow> coords \<Rightarrow> RenderChunk option" where
  "latest_pending r c =
     (let us = filter (\<lambda>u. chunk_coords u = c) (manual_chunks r)
      in if us = [] then None else Some (last us))"

text \<open>The invariant of the spec: every pending unit is the unit mapped by its coordinate.\<close>

definition pending_owned :: "RenderRegion \<Rightarrow> bool" where
  "pending_owned r = (\<forall>u \<in> set (manual_chunks r). map_of (chunks r) (chunk_coords u) = Some u)"

text \<open>What the code keeps: a pending coordinate is mapped to its latest pending unit.\<close>

definition pending_latest_owned :: "RenderRegion \<Rightarrow> bool" where
  "pending_latest_owned r =
     (\<forall>u \<in> set (manual_chunks r). map_of (chunks r) (chunk_coords u) = latest_pending r (chunk_coords u))"

definition RenderRegion_inv :: "RenderRegion \<Rightarrow> bool" where
  "RenderRegion_inv r =
     (distinct (map fst (chunks r)) \<and>
      (\<forall>(c, u) \<in> set (chunks r). c = chunk_coords u) \<and>
      (\<forall>u \<in> set (manual_chunks r). chunk_coords u \<in> fst ` set (chunks r)))"

definition ChunkManager_inv :: "ChunkManager \<Rightarrow> bool" where
  "ChunkManager_inv m =
     (region_size m \<noteq> 0 \<and>
      distinct (map fst (regions m)) \<and>
      (\<forall>(k, r) \<in> set (regions m).
         (rx r, rz r) = k \<and> RenderRegion_inv r \<and>
         (\<forall>(c, u) \<in> set (chunks r). region_coords m (fst c) (snd c) = Inr k)) \<and>
      (\<forall>u \<in> set (chunk_temp m). chunk_coords u \<in> chunk_temp_set m))"

text \<open>A chunk coordinate is resident in the region stored under a region coordinate.\<close>

definition resident :: "ChunkManager \<Rightarrow> coords \<Rightarrow> coords \<Rightarrow> bool" where
  "resident m c k =
     (case map_of (regions m) k of None \<Rightarrow> False | Some r \<Rightarrow> RenderRegion_contains r c)"

text \<open>A unit has been routed: its region holds it, as a pending unit and under its coordinate.\<close>

definition routed :: "ChunkManager \<Rightarrow> RenderChunk \<Rightarrow> bool" where
  "routed m u =
     (case region_coords m (cx u) (cz u) of
        Inl e \<Rightarrow> False
      | Inr k \<Rightarrow>
          (case map_of (regions m) k of
             None \<Rightarrow> False
           | Some r \<Rightarrow> u \<in> set (manual_chunks r) \<and> RenderRegion_contains r (chunk_coords u)))"

text \<open>Two states of a region with the same units, pending list and region coordinate.\<close>

definition same_units :: "RenderRegion \<Rightarrow> RenderRegion \<Rightarrow> bool" where
  "same_units r r1 =
     (chunks r1 = chunks r \<and> manual_chunks r1 = manual_chunks r \<and> rx r1 = rx r \<and> rz r1 = rz r)"

text \<open>
  What the eviction pass does to a region: it keeps its region coordinate, and either
  merges it (units kept, nothing pending) or unloads it (no unit left in the map).
\<close>

definition evicted :: "coords \<Rightarrow> coords \<Rightarrow> RenderRegion \<Rightarrow> RenderRegion \<Rightarrow> bool" where
  "evicted lo hi r r1 =
     (rx r1 = rx r \<and> rz r1 = rz r \<and>
      (if in_box lo hi r then chunks r1 = chunks r \<and> manual_chunks r1 = [] else chunks r1 = []))"

text \<open>The calls made after the context \<open>g\<close>, up to the context \<open>g1\<close>.\<close>

definition new_calls :: "gl_context \<Rightarrow> gl_context \<Rightarrow> call list" where
  "new_calls g g1 = drop (length (calls g)) (calls g1)"

text \<open>The units drawn on their own, the units unloaded and the uploads among some calls.\<close>

fun drawn_units :: "call list \<Rightarrow> RenderChunk list" where
  "drawn_units [] = []"
| "drawn_units (chunk_draw u tm # cs) = u # drawn_units cs"
| "drawn_units (c # cs) = drawn_units cs"

fun unloaded_units :: "call list \<Rightarrow> RenderChunk list" where
  "unloaded_units [] = []"
| "unloaded_units (chunk_unload u # cs) = u # unloaded_units cs"
| "unloaded_units (c # cs) = unloaded_units cs"

fun uploads :: "call list \<Rightarrow> real list list" where
  "uploads [] = []"
| "uploads (glBufferData n vs # cs) = vs # uploads cs"
| "uploads (c # cs) = uploads cs"

text \<open>
  Every unit of the owned map is still pending or has had \<^verbatim>\<open>unload\<close> called on it.
\<close>

definition released_or_pending :: "gl_context \<Rightarrow> RenderRegion \<Rightarrow> bool" where
  "released_or_pending g r =
     (\<forall>(c, u) \<in> set (chunks r). u \<in> set (manual_chunks r) \<or> u \<in> set (unloaded_units (calls g)))"

definition result_state :: "error + gl_context \<times> 's \<Rightarrow> 's option" where
  "result_state res = (case res of Inl e \<Rightarrow> None | Inr (g, s) \<Rightarrow> Some s)"

definition result_calls :: "error + gl_context \<times> 's \<Rightarrow> call list" where
  "result_calls res = (case res of Inl e \<Rightarrow> [] | Inr (g, s) \<Rightarrow> calls g)"

subsection \<open>Example data\<close>

definition unit_A :: RenderChunk where
  "unit_A = \<lparr>uid = 1, cx = 0, cz = 0, chunk_lod0 = [0, 0, 0, 0, 0, 1, 1, 1, 1, 1]\<rparr>"

definition unit_B :: RenderChunk where
  "unit_B = \<lparr>uid = 2, cx = 0, cz = 0,
              chunk_lod0 = [0, 1, 0, 0, 0, 1, 1, 1, 1, 1, 1, 1, 0, 0, 1, 1, 1, 1, 1, 1]\<rparr>"

definition unit_C :: RenderChunk where
  "unit_C = \<lparr>uid = 3, cx = 20, cz = 0, chunk_lod0 = [5, 0, 5, 0, 0, 1, 1, 1, 1, 1]\<rparr>"

definition unit_D :: RenderChunk where
  "unit_D = \<lparr>uid = 4, cx = - 1, cz = - 17, chunk_lod0 = [7, 0, 7, 0, 0, 1, 1, 1, 1, 1]\<rparr>"

definition region_0 :: RenderRegion where
  "region_0 = RenderRegion_init 0 0 16 ''world''"

definition manager_0 :: ChunkManager where
  "manager_0 = ChunkManager_init ''world'' 16"

text \<open>
  A manager with unit A pending in region (0, 0), unit D pending in region (-1, -2) and
  unit C waiting in the queue.
\<close>

definition manager_1 :: ChunkManager where
  "manager_1 =
     \<lparr>manager_identifier = ''world'', region_size = 16,
      regions = [((0, 0), RenderRegion_add_render_chunk region_0 unit_A),
                 ((- 1, - 2), RenderRegion_add_render_chunk (RenderRegion_init (- 1) (- 2) 16 ''world'') unit_D)],
      chunk_temp = [unit_C], chunk_temp_set = {(20, 0)}\<rparr>"

section \<open>Properties\<close>

subsection \<open>Set-up and merge of a region\<close>

lemma calls_emit: "calls (emit cs g) = calls g @ cs"
  by (simp add: emit_def)

lemma next_name_emit: "next_name (emit cs g) = next_name g"
  by (simp add: emit_def)

lemma emit_Nil: "emit [] g = g"
  by (simp add: emit_def)

lemma setup_region:
  "snd (RenderRegion_setup g r) =
     (if vao r = None
      then r\<lparr>vao := Some (next_name g), vbo := Some (next_name g + 1),
             shader := Some (Shader (region_identifier r) ''render_chunk''),
             trm_mat_loc := Some (UniformLocation (Some (Shader (region_identifier r) ''render_chunk''))
                                   ''transformation_matrix'')\<rparr>
      else r)"
  by (simp add: RenderRegion_setup_def Let_def)

lemma setup_fields:
  "chunks (snd (RenderRegion_setup g r)) = chunks r"
  "manual_chunks (snd (RenderRegion_setup g r)) = manual_chunks r"
  "draw_count (snd (RenderRegion_setup g r)) = draw_count r"
  "rx (snd (RenderRegion_setup g r)) = rx r"
  "rz (snd (RenderRegion_setup g r)) = rz r"
  "vao (snd (RenderRegion_setup g r)) \<noteq> None"
  by (simp_all add: setup_region)

lemma setup_allocated: "vao r \<noteq> None \<Longrightarrow> RenderRegion_setup g r = (g, r)"
  by (auto simp: RenderRegion_setup_def)

lemma setup_calls_gl:
  "calls (fst (RenderRegion_setup g r)) =
     calls g @ (if vao r = None then setup_calls (next_name g) (next_name g + 1) (region_identifier r) else [])"
  by (simp add: RenderRegion_setup_def Let_def calls_emit)

lemma merge_allocated_no_pending:
  "vao r \<noteq> None \<Longrightarrow> manual_chunks r = [] \<Longrightarrow> RenderRegion_merge g r = Inr (g, r)"
  by (simp add: RenderRegion_merge_def setup_allocated)

lemma merge_result:
  "RenderRegion_merge g r = Inr (g1, r1) \<Longrightarrow> vao r1 \<noteq> None \<and> manual_chunks r1 = []"
proof -
  assume a: "RenderRegion_merge g r = Inr (g1, r1)"
  obtain g0 r0 where s: "RenderRegion_setup g r = (g0, r0)"
    by (cases "RenderRegion_setup g r")
  have "vao r0 \<noteq> None"
    using setup_fields(6) [of g r] s by simp
  with a s show ?thesis
    by (auto simp: RenderRegion_merge_def split: if_splits)
qed

lemma merge_succeeds:
  "manual_chunks r = [] \<or> chunks r \<noteq> [] \<Longrightarrow> \<exists>g1 r1. RenderRegion_merge g r = Inr (g1, r1)"
proof -
  assume a: "manual_chunks r = [] \<or> chunks r \<noteq> []"
  obtain g0 r0 where s: "RenderRegion_setup g r = (g0, r0)"
    by (cases "RenderRegion_setup g r")
  have "chunks r0 = chunks r" "manual_chunks r0 = manual_chunks r"
    using setup_fields(1,2) [of g r] s by simp_all
  with a s show ?thesis
    by (auto simp: RenderRegion_merge_def)
qed

lemma merge_no_pending:
  "manual_chunks r = [] \<Longrightarrow> RenderRegion_merge g r = Inr (RenderRegion_setup g r)"
  by (simp add: RenderRegion_merge_def case_prod_beta setup_fields)

text \<open>
  Claim C5, as the code has it. The claim as stated fails: with an empty pending list
  \<^verbatim>\<open>merge\<close> is not a no-op on a region that has never been set up. \<^verbatim>\<open>_setup\<close> runs before
  the pending list is looked at, allocates the vertex array and the buffer, and makes its
  sixteen calls, an upload of zero bytes among them.
\<close>

theorem merge_sets_up_new_region:
  "manual_chunks region_0 = [] \<and>
   RenderRegion_merge gl_init region_0 \<noteq> Inr (gl_init, region_0) \<and>
   uploads (result_calls (RenderRegion_merge gl_init region_0)) = [[]] \<and>
   length (result_calls (RenderRegion_merge gl_init region_0)) = 16 \<and>
   map_option vao (result_state (RenderRegion_merge gl_init region_0)) = Some (Some 1)"
  by (simp add: region_0_def RenderRegion_init_def RenderRegion_merge_def RenderRegion_setup_def
      gl_init_def emit_def setup_calls_def result_calls_def result_state_def Let_def)

text \<open>
  Claim C5, amended. Whenever \<^verbatim>\<open>merge\<close> returns, a second \<^verbatim>\<open>merge\<close> right after it changes
  neither the region nor the OpenGL context: it makes no call, uploads nothing and leaves
  the merged content and the draw count as they are. \<^verbatim>\<open>merge\<close> returns on every region in
  which pending units come with a non-empty owned map, and raises \<^verbatim>\<open>ValueError\<close> when units
  are pending and the map is empty. With an empty pending list \<^verbatim>\<open>merge\<close> returns and keeps
  the owned map, the draw count and the empty pending list; it is a no-op on a region whose
  vertex array is allocated, and on a region without one it makes the calls of the lazy
  set-up and no other.
\<close>

theorem merge_twice:
  "(\<forall>g1 r1. RenderRegion_merge g r = Inr (g1, r1) \<longrightarrow> RenderRegion_merge g1 r1 = Inr (g1, r1)) \<and>
   ((manual_chunks r \<noteq> [] \<longrightarrow> chunks r \<noteq> []) \<longrightarrow> (\<exists>g1 r1. RenderRegion_merge g r = Inr (g1, r1))) \<and>
   (manual_chunks r \<noteq> [] \<and> chunks r = [] \<longrightarrow> RenderRegion_merge g r = Inl ValueError) \<and>
   (manual_chunks r = [] \<longrightarrow>
      (\<exists>g1 r1. RenderRegion_merge g r = Inr (g1, r1) \<and>
         chunks r1 = chunks r \<and> draw_count r1 = draw_count r \<and> manual_chunks r1 = [] \<and>
         (vao r \<noteq> None \<longrightarrow> g1 = g \<and> r1 = r) \<and>
         (vao r = None \<longrightarrow>
            new_calls g g1 = setup_calls (next_name g) (next_name g + 1) (region_identifier r))))"
proof (intro conjI allI impI)
  fix g1 r1
  assume m: "RenderRegion_merge g r = Inr (g1, r1)"
  then have "vao r1 \<noteq> None" and "manual_chunks r1 = []"
    using merge_result by blast+
  then show "RenderRegion_merge g1 r1 = Inr (g1, r1)"
    by (rule merge_allocated_no_pending)
next
  assume "manual_chunks r \<noteq> [] \<longrightarrow> chunks r \<noteq> []"
  then show "\<exists>g1 r1. RenderRegion_merge g r = Inr (g1, r1)"
    using merge_succeeds [of r g] by blast
next
  assume "manual_chunks r \<noteq> [] \<and> chunks r = []"
  then show "RenderRegion_merge g r = Inl ValueError"
    by (simp add: RenderRegion_merge_def case_prod_beta setup_fields)
next
  assume e: "manual_chunks r = []"
  let ?g1 = "fst (RenderRegion_setup g r)"
  let ?r1 = "snd (RenderRegion_setup g r)"
  have m: "RenderRegion_merge g r = Inr (?g1, ?r1)"
    using e by (simp add: merge_no_pending)
  have f: "chunks ?r1 = chunks r" "draw_count ?r1 = draw_count r" "manual_chunks ?r1 = []"
    using e by (simp_all add: setup_fields)
  have a: "vao r \<noteq> None \<longrightarrow> ?g1 = g \<and> ?r1 = r"
    using setup_allocated [of r g] by simp
  have n: "vao r = None \<longrightarrow>
      new_calls g ?g1 = setup_calls (next_name g) (next_name g + 1) (region_identifier r)"
    by (simp add: new_calls_def setup_calls_gl)
  show "\<exists>g1 r1. RenderRegion_merge g r = Inr (g1, r1) \<and>
         chunks r1 = chunks r \<and> draw_count r1 = draw_count r \<and> manual_chunks r1 = [] \<and>
         (vao r \<noteq> None \<longrightarrow> g1 = g \<and> r1 = r) \<and>
         (vao r = None \<longrightarrow>
            new_calls g g1 = setup_calls (next_name g) (next_name g + 1) (region_identifier r))"
    by (rule exI [of _ ?g1], rule exI [of _ ?r1]) (intro conjI m f a n)
qed

theorem merge_twice_witness:
  "manual_chunks (RenderRegion_add_render_chunk region_0 unit_A) \<noteq> [] \<and>
   chunks (RenderRegion_add_render_chunk region_0 unit_A) \<noteq> [] \<and>
   (\<exists>g1 r1. RenderRegion_merge gl_init (RenderRegion_add_render_chunk region_0 unit_A) = Inr (g1, r1) \<and>
      RenderRegion_merge g1 r1 = Inr (g1, r1))"
  using merge_twice [of gl_init "RenderRegion_add_render_chunk region_0 unit_A"]
  by (auto simp: RenderRegion_add_render_chunk_def)

subsection \<open>The pending list and the owned map\<close>

lemma add_fields:
  "chunks (RenderRegion_add_render_chunk r u) = AList.update (chunk_coords u) u (chunks r)"
  "manual_chunks (RenderRegion_add_render_chunk r u) = manual_chunks r @ [u]"
  "rx (RenderRegion_add_render_chunk r u) = rx r"
  "rz (RenderRegion_add_render_chunk r u) = rz r"
  "vao (RenderRegion_add_render_chunk r u) = vao r"
  by (simp_all add: RenderRegion_add_render_chunk_def chunk_coords_def)

lemma latest_pending_add:
  "latest_pending (RenderRegion_add_render_chunk r u) c =
     (if chunk_coords u = c then Some u else latest_pending r c)"
  by (simp add: latest_pending_def add_fields)

lemma pending_latest_owned_add:
  "pending_latest_owned r \<Longrightarrow> pending_latest_owned (RenderRegion_add_render_chunk r u)"
  by (auto simp: pending_latest_owned_def latest_pending_add add_fields update_conv')

lemma latest_pending_Some: "u \<in> set (manual_chunks r) \<Longrightarrow> latest_pending r (chunk_coords u) \<noteq> None"
  by (auto simp: latest_pending_def filter_empty_conv)

lemma pending_latest_owned_nonempty:
  "pending_latest_owned r \<Longrightarrow> manual_chunks r = [] \<or> chunks r \<noteq> []"
proof (cases "manual_chunks r")
  case Nil
  then show ?thesis by simp
next
  case (Cons u us)
  assume "pending_latest_owned r"
  with Cons have "map_of (chunks r) (chunk_coords u) = latest_pending r (chunk_coords u)"
    by (simp add: pending_latest_owned_def)
  moreover have "latest_pending r (chunk_coords u) \<noteq> None"
    using Cons by (intro latest_pending_Some) simp
  ultimately show ?thesis by auto
qed

lemma merge_fields:
  assumes "RenderRegion_merge g r = Inr (g1, r1)"
  shows "chunks r1 = chunks r" "manual_chunks r1 = []" "rx r1 = rx r" "rz r1 = rz r"
proof -
  obtain g0 r0 where s: "RenderRegion_setup g r = (g0, r0)"
    by (cases "RenderRegion_setup g r")
  have "chunks r0 = chunks r" "rx r0 = rx r" "rz r0 = rz r"
    using setup_fields [of g r] s by simp_all
  with assms s show "chunks r1 = chunks r" "manual_chunks r1 = []" "rx r1 = rx r" "rz r1 = rz r"
    by (auto simp: RenderRegion_merge_def split: if_splits)
qed

lemma draw_fields:
  "chunks (snd (RenderRegion_draw tm g r)) = chunks r"
  "manual_chunks (snd (RenderRegion_draw tm g r)) = manual_chunks r"
  "rx (snd (RenderRegion_draw tm g r)) = rx r"
  "rz (snd (RenderRegion_draw tm g r)) = rz r"
  "draw_count (snd (RenderRegion_draw tm g r)) = draw_count r"
  by (simp_all add: RenderRegion_draw_def case_prod_beta setup_fields)

lemma pending_latest_owned_cong:
  "chunks r1 = chunks r \<Longrightarrow> manual_chunks r1 = manual_chunks r \<Longrightarrow>
   pending_latest_owned r1 = pending_latest_owned r"
  by (simp add: pending_latest_owned_def latest_pending_def)

lemma pending_latest_owned_step:
  assumes "x \<noteq> Unload" and "pending_latest_owned r"
  shows "\<exists>g1 r1. region_step x (g, r) = Inr (g1, r1) \<and> pending_latest_owned r1"
proof (cases x)
  case (AddUnit u)
  with assms show ?thesis by (simp add: pending_latest_owned_add)
next
  case Merge
  obtain g1 r1 where m: "RenderRegion_merge g r = Inr (g1, r1)"
    using merge_succeeds [OF pending_latest_owned_nonempty [OF assms(2)]] by blast
  then have "manual_chunks r1 = []" by (rule merge_fields)
  then have "pending_latest_owned r1" by (simp add: pending_latest_owned_def)
  with Merge m show ?thesis by simp
next
  case (Draw tm)
  have "pending_latest_owned (snd (RenderRegion_draw tm g r)) = pending_latest_owned r"
    by (rule pending_latest_owned_cong) (simp_all add: draw_fields)
  with assms(2) have "pending_latest_owned (snd (RenderRegion_draw tm g r))"
    by simp
  with Draw show ?thesis by (cases "RenderRegion_draw tm g r") simp
next
  case Unload
  with assms show ?thesis by simp
qed

lemma filter_absent: "k \<notin> f ` set xs \<Longrightarrow> filter (\<lambda>y. f y = k) xs = []"
  by (induction xs) auto

lemma filter_distinct_map:
  "distinct (map f xs) \<Longrightarrow> x \<in> set xs \<Longrightarrow> filter (\<lambda>y. f y = f x) xs = [x]"
proof (induction xs)
  case Nil
  then show ?case by simp
next
  case (Cons a xs)
  show ?case
  proof (cases "a = x")
    case True
    have "filter (\<lambda>y. f y = f x) xs = []"
      using Cons.prems(1) True by (intro filter_absent) simp
    with True show ?thesis by simp
  next
    case False
    with Cons.prems have "x \<in> set xs" and "f a \<noteq> f x"
      by auto
    with Cons show ?thesis by simp
  qed
qed

lemma pending_latest_owned_distinct:
  assumes "pending_latest_owned r" and "distinct (map chunk_coords (manual_chunks r))"
  shows "pending_owned r"
  unfolding pending_owned_def
proof
  fix u assume u: "u \<in> set (manual_chunks r)"
  have "filter (\<lambda>v. chunk_coords v = chunk_coords u) (manual_chunks r) = [u]"
    using assms(2) u by (rule filter_distinct_map)
  then have "latest_pending r (chunk_coords u) = Some u"
    by (simp add: latest_pending_def)
  with assms(1) u show "map_of (chunks r) (chunk_coords u) = Some u"
    by (simp add: pending_latest_owned_def)
qed

lemma pending_latest_owned_preserved:
  assumes "Unload \<notin> set ops" and "pending_latest_owned r"
  shows "\<exists>g1 r1. region_run ops (g, r) = Inr (g1, r1) \<and> pending_latest_owned r1"
  using assms
proof (induction ops arbitrary: g r)
  case Nil
  then show ?case by simp
next
  case (Cons x xs)
  then obtain g1 r1 where s: "region_step x (g, r) = Inr (g1, r1)" and p: "pending_latest_owned r1"
    using pending_latest_owned_step [of x r g] by auto
  with Cons.IH [of r1 g1] Cons.prems show ?case by simp
qed

text \<open>
  Claim C2, as the code has it. The claim as stated fails: a second \<^verbatim>\<open>add_render_chunk\<close>
  for a coordinate that is still pending replaces the mapped unit and leaves the first unit
  in the pending list.
\<close>

theorem pending_not_owned_after_replacement:
  "\<not> pending_owned
       (RenderRegion_add_render_chunk (RenderRegion_add_render_chunk region_0 unit_A) unit_B)"
  by (simp add: pending_owned_def RenderRegion_add_render_chunk_def region_0_def RenderRegion_init_def
      unit_A_def unit_B_def chunk_coords_def)

text \<open>
  Claim C2, amended. For every region and every sequence of \<^verbatim>\<open>add_render_chunk\<close>,
  \<^verbatim>\<open>merge\<close> and \<^verbatim>\<open>draw\<close> (no \<^verbatim>\<open>unload\<close>), run from a state in which every pending
  coordinate is mapped to its latest pending unit (a new region is one): the sequence
  runs without error, and afterwards every pending unit's coordinate is a key of the owned
  map, mapped to the pending unit added last for that coordinate; when the pending units
  have distinct coordinates, every pending unit is the unit mapped by its coordinate.
\<close>

theorem pending_latest_owned_run:
  assumes "Unload \<notin> set ops" and "pending_latest_owned r"
  shows "\<exists>g1 r1. region_run ops (g, r) = Inr (g1, r1) \<and> pending_latest_owned r1 \<and>
           (distinct (map chunk_coords (manual_chunks r1)) \<longrightarrow> pending_owned r1)"
proof -
  from assms obtain g1 r1 where "region_run ops (g, r) = Inr (g1, r1)" and "pending_latest_owned r1"
    using pending_latest_owned_preserved by blast
  then show ?thesis
    using pending_latest_owned_distinct [of r1] by blast
qed

theorem pending_latest_owned_run_witness:
  "Unload \<notin> set [AddUnit unit_A, AddUnit unit_B, Draw (Camera 1), Merge, AddUnit unit_A] \<and>
   pending_latest_owned region_0 \<and>
   (\<exists>g1 r1. region_run [AddUnit unit_A, AddUnit unit_B, Draw (Camera 1), Merge, AddUnit unit_A]
                (gl_init, region_0) = Inr (g1, r1) \<and>
      pending_latest_owned r1)"
  using pending_latest_owned_run
    [of "[AddUnit unit_A, AddUnit unit_B, Draw (Camera 1), Merge, AddUnit unit_A]" region_0 gl_init]
  by (auto simp: pending_latest_owned_def region_0_def RenderRegion_init_def)

subsection \<open>What the calls of a region show\<close>

lemma unloaded_units_append: "unloaded_units (xs @ ys) = unloaded_units xs @ unloaded_units ys"
  by (induction xs rule: unloaded_units.induct) simp_all

lemma drawn_units_append: "drawn_units (xs @ ys) = drawn_units xs @ drawn_units ys"
  by (induction xs rule: drawn_units.induct) simp_all

lemma uploads_append: "uploads (xs @ ys) = uploads xs @ uploads ys"
  by (induction xs rule: uploads.induct) simp_all

lemma unloaded_units_map: "unloaded_units (map (chunk_unload \<circ> f) xs) = map f xs"
  by (induction xs) simp_all

lemma unloaded_units_map_id: "unloaded_units (map chunk_unload xs) = xs"
  by (induction xs) simp_all

lemma drawn_units_map: "drawn_units (map (\<lambda>u. chunk_draw u tm) xs) = xs"
  by (induction xs) simp_all

lemma drawn_units_map_unload: "drawn_units (map chunk_unload xs) = []"
  by (induction xs) simp_all

lemma uploads_map_unload: "uploads (map chunk_unload xs) = []"
  by (induction xs) simp_all

lemma observe_setup_calls:
  "drawn_units (setup_calls a b i) = []"
  "unloaded_units (setup_calls a b i) = []"
  "uploads (setup_calls a b i) = [[]]"
  by (simp_all add: setup_calls_def)

lemma observe_merge_calls:
  "drawn_units (merge_calls r) = []"
  "unloaded_units (merge_calls r) = manual_chunks r"
  "uploads (merge_calls r) = [merged_verts r]"
  by (simp_all add: merge_calls_def drawn_units_map_unload unloaded_units_map_id uploads_map_unload)

lemma observe_draw_calls:
  "drawn_units (draw_calls tm r) = manual_chunks r"
  by (simp add: draw_calls_def drawn_units_map)

lemma observe_unload_calls:
  "unloaded_units (unload_calls r) = map snd (chunks r)"
  by (simp add: unload_calls_def unloaded_units_append unloaded_units_map split: option.splits)

lemma observe_setup:
  "drawn_units (calls (fst (RenderRegion_setup g r))) = drawn_units (calls g)"
  "unloaded_units (calls (fst (RenderRegion_setup g r))) = unloaded_units (calls g)"
  by (simp_all add: setup_calls_gl drawn_units_append unloaded_units_append observe_setup_calls)

lemma merge_pending:
  assumes "manual_chunks r \<noteq> []" and "chunks r \<noteq> []"
  shows "RenderRegion_merge g r =
           Inr (emit (merge_calls (snd (RenderRegion_setup g r))) (fst (RenderRegion_setup g r)),
                (snd (RenderRegion_setup g r))
                  \<lparr>draw_count := length (merged_verts r) div 10, manual_chunks := []\<rparr>)"
  using assms by (simp add: RenderRegion_merge_def case_prod_beta setup_fields merged_verts_def)

lemma merged_verts_setup: "merged_verts (snd (RenderRegion_setup g r)) = merged_verts r"
  by (simp add: merged_verts_def setup_fields)

lemma merge_calls_setup:
  "unloaded_units (merge_calls (snd (RenderRegion_setup g r))) = manual_chunks r"
  "uploads (merge_calls (snd (RenderRegion_setup g r))) = [merged_verts r]"
  by (simp_all add: observe_merge_calls setup_fields merged_verts_setup)

lemma filter_update_key:
  "distinct (map fst al) \<Longrightarrow> filter (\<lambda>e. fst e = k) (AList.update k v al) = [(k, v)]"
proof (induction al)
  case Nil
  then show ?case by simp
next
  case (Cons p ps)
  show ?case
  proof (cases "fst p = k")
    case True
    then have "filter (\<lambda>e. fst e = k) ps = []"
      using Cons.prems by (intro filter_absent) simp
    with True show ?thesis by simp
  next
    case False
    with Cons show ?thesis by simp
  qed
qed

subsection \<open>Unloading a region\<close>

text \<open>
  Claim C3, as the code has it. The claim as stated fails: \<^verbatim>\<open>unload\<close> leaves the pending
  list and the vertex buffer handle as they were.
\<close>

theorem unload_keeps_pending_list:
  "map_option manual_chunks
     (result_state (region_run [AddUnit unit_A, Merge, AddUnit unit_B, Unload] (gl_init, region_0)))
     = Some [unit_B] \<and>
   map_option vbo
     (result_state (region_run [AddUnit unit_A, Merge, AddUnit unit_B, Unload] (gl_init, region_0)))
     = Some (Some 2)"
  by (simp add: result_state_def RenderRegion_add_render_chunk_def region_0_def RenderRegion_init_def
      RenderRegion_merge_def RenderRegion_setup_def RenderRegion_unload_def gl_init_def Let_def)

text \<open>
  Claim C3, amended. \<^verbatim>\<open>unload\<close> deletes the region's vertex array if one is allocated and
  forgets its handle, calls \<^verbatim>\<open>unload\<close> on every unit of the owned map (merged or pending),
  in the order of the map, makes no other call, and empties the owned map.
\<close>

theorem unload_releases_owned:
  "calls (fst (RenderRegion_unload g r)) = calls g @ unload_calls r \<and>
   unloaded_units (unload_calls r) = map snd (chunks r) \<and>
   (\<forall>a. vao r = Some a \<longrightarrow> glDeleteVertexArrays a \<in> set (unload_calls r)) \<and>
   vao (snd (RenderRegion_unload g r)) = None \<and>
   chunks (snd (RenderRegion_unload g r)) = []"
  by (simp add: RenderRegion_unload_def calls_emit observe_unload_calls) (simp add: unload_calls_def)

theorem unload_releases_owned_witness:
  "vao (snd (RenderRegion_draw (Camera 1) gl_init (RenderRegion_add_render_chunk region_0 unit_A)))
     = Some 1 \<and>
   glDeleteVertexArrays 1 \<in> set (unload_calls
     (snd (RenderRegion_draw (Camera 1) gl_init (RenderRegion_add_render_chunk region_0 unit_A)))) \<and>
   unloaded_units (unload_calls
     (snd (RenderRegion_draw (Camera 1) gl_init (RenderRegion_add_render_chunk region_0 unit_A))))
     = [unit_A]"
  using unload_releases_owned
    [of gl_init "snd (RenderRegion_draw (Camera 1) gl_init (RenderRegion_add_render_chunk region_0 unit_A))"]
  by (simp add: RenderRegion_draw_def RenderRegion_setup_def RenderRegion_add_render_chunk_def
      region_0_def RenderRegion_init_def gl_init_def Let_def)

subsection \<open>Replacing a unit\<close>

text \<open>
  Claim C1, as the code has it. The claim as stated fails: unit B replaces unit A at
  coordinate (0, 0) and is routed to the region by the second frame, and in the third
  frame unit A is still drawn on its own; \<^verbatim>\<open>unload\<close> has not been called on it.
\<close>

theorem replaced_unit_still_drawn:
  "chunk_draw unit_A (MatMul (Translation 0 0) (Camera 3))
     \<in> set (result_calls (manager_run
           [Submit unit_A, Frame (Camera 1), Submit unit_B, Frame (Camera 2), Frame (Camera 3)]
           (gl_init, manager_0))) \<and>
   chunk_unload unit_A
     \<notin> set (result_calls (manager_run
           [Submit unit_A, Frame (Camera 1), Submit unit_B, Frame (Camera 2), Frame (Camera 3)]
           (gl_init, manager_0)))"
  by code_simp

text \<open>
  Claim C1, amended. Adding a unit to a region whose map already holds a unit for its
  coordinate leaves the map with the new unit alone for that coordinate. The old unit
  stops being drawn, and is released, by the region's next \<^verbatim>\<open>merge\<close>, not by the routing:
  that merge returns, leaves the pending list empty, uploads the concatenation of the
  mapped units' payloads (the new unit's for this coordinate) with the matching draw
  count, and after it \<^verbatim>\<open>unload\<close> has been called on the old unit and a draw of the
  region draws no unit on its own.
\<close>

theorem replacement_settled_by_merge:
  assumes "distinct (map fst (chunks r))"
    and "released_or_pending g r"
    and "map_of (chunks r) (chunk_coords new) = Some old"
  shows "filter (\<lambda>e. fst e = chunk_coords new) (chunks (RenderRegion_add_render_chunk r new))
           = [(chunk_coords new, new)] \<and>
         (\<exists>g1 r1. RenderRegion_merge g (RenderRegion_add_render_chunk r new) = Inr (g1, r1) \<and>
            filter (\<lambda>e. fst e = chunk_coords new) (chunks r1) = [(chunk_coords new, new)] \<and>
            manual_chunks r1 = [] \<and>
            last (uploads (calls g1)) = merged_verts r1 \<and>
            draw_count r1 = length (merged_verts r1) div 10 \<and>
            old \<in> set (unloaded_units (calls g1)) \<and>
            drawn_units (draw_calls tm r1) = [])"
proof -
  let ?r = "RenderRegion_add_render_chunk r new"
  let ?s = "RenderRegion_setup g ?r"
  let ?g1 = "emit (merge_calls (snd ?s)) (fst ?s)"
  let ?r1 = "(snd ?s)\<lparr>draw_count := length (merged_verts ?r) div 10, manual_chunks := []\<rparr>"
  have first: "filter (\<lambda>e. fst e = chunk_coords new) (chunks ?r) = [(chunk_coords new, new)]"
    using assms(1) by (simp add: add_fields filter_update_key)
  have m: "RenderRegion_merge g ?r = Inr (?g1, ?r1)"
    by (rule merge_pending) (simp_all add: add_fields)
  have c: "chunks ?r1 = chunks ?r"
    by (simp add: setup_fields)
  have v: "merged_verts ?r1 = merged_verts ?r"
    by (simp add: merged_verts_def setup_fields)
  have u: "unloaded_units (calls ?g1) = unloaded_units (calls g) @ manual_chunks r @ [new]"
    by (simp add: calls_emit unloaded_units_append observe_setup merge_calls_setup add_fields)
  have "(chunk_coords new, old) \<in> set (chunks r)"
    using assms(3) by (rule map_of_SomeD)
  with assms(2) have "old \<in> set (manual_chunks r) \<or> old \<in> set (unloaded_units (calls g))"
    by (auto simp: released_or_pending_def)
  with u have o: "old \<in> set (unloaded_units (calls ?g1))"
    by auto
  have l: "last (uploads (calls ?g1)) = merged_verts ?r1"
    by (simp add: calls_emit uploads_append merge_calls_setup v)
  have d: "drawn_units (draw_calls tm ?r1) = []"
    by (simp add: observe_draw_calls)
  have dc: "draw_count ?r1 = length (merged_verts ?r1) div 10"
    by (simp add: v)
  have mc: "manual_chunks ?r1 = []"
    by simp
  from first m c l dc o d mc show ?thesis
    by (intro conjI exI [of _ ?g1] exI [of _ ?r1]) simp_all
qed

theorem replacement_settled_by_merge_witness:
  "distinct (map fst (chunks (RenderRegion_add_render_chunk region_0 unit_A))) \<and>
   released_or_pending gl_init (RenderRegion_add_render_chunk region_0 unit_A) \<and>
   map_of (chunks (RenderRegion_add_render_chunk region_0 unit_A)) (chunk_coords unit_B) = Some unit_A \<and>
   (\<exists>g1 r1. RenderRegion_merge gl_init
        (RenderRegion_add_render_chunk (RenderRegion_add_render_chunk region_0 unit_A) unit_B)
        = Inr (g1, r1) \<and>
      manual_chunks r1 = [] \<and> unit_A \<in> set (unloaded_units (calls g1)))"
  using replacement_settled_by_merge
    [of "RenderRegion_add_render_chunk region_0 unit_A" gl_init unit_B unit_A "Camera 1"]
  by (auto simp: released_or_pending_def RenderRegion_add_render_chunk_def region_0_def
      RenderRegion_init_def chunk_coords_def unit_A_def unit_B_def)

lemma set_update_subset: "set (AList.update k v al) \<subseteq> insert (k, v) (set al)"
  by (induction al) auto

lemma unloaded_units_map_draw: "unloaded_units (map (\<lambda>u. chunk_draw u tm) xs) = []"
  by (induction xs) simp_all

lemma unloaded_units_draw_calls: "unloaded_units (draw_calls tm r) = []"
  by (simp add: draw_calls_def unloaded_units_map_draw)

lemma released_or_pending_step:
  assumes "released_or_pending g r" and "region_step x (g, r) = Inr (g1, r1)"
  shows "released_or_pending g1 r1"
proof (cases x)
  case (AddUnit u)
  with assms(2) have e: "g1 = g" "r1 = RenderRegion_add_render_chunk r u"
    by simp_all
  show ?thesis
    unfolding released_or_pending_def e
  proof (clarify)
    fix c v
    assume "(c, v) \<in> set (chunks (RenderRegion_add_render_chunk r u))"
      and "v \<notin> set (unloaded_units (calls g))"
    then have "(c, v) = (chunk_coords u, u) \<or> (c, v) \<in> set (chunks r)"
      using set_update_subset [of "chunk_coords u" u "chunks r"] by (auto simp: add_fields)
    with assms(1) \<open>v \<notin> set (unloaded_units (calls g))\<close>
    show "v \<in> set (manual_chunks (RenderRegion_add_render_chunk r u))"
      by (auto simp: released_or_pending_def add_fields)
  qed
next
  case Merge
  with assms(2) have m: "RenderRegion_merge g r = Inr (g1, r1)"
    by simp
  show ?thesis
  proof (cases "manual_chunks r = []")
    case True
    with m have "RenderRegion_setup g r = (g1, r1)"
      by (simp add: merge_no_pending)
    then have "chunks r1 = chunks r" "unloaded_units (calls g1) = unloaded_units (calls g)"
      using setup_fields(1) [of g r] observe_setup(2) [of g r] by simp_all
    with assms(1) True show ?thesis
      by (auto simp: released_or_pending_def)
  next
    case False
    with m have ne: "chunks r \<noteq> []"
      by (auto simp: RenderRegion_merge_def case_prod_beta setup_fields split: if_splits)
    from m merge_pending [OF False ne, of g]
    have g1: "g1 = emit (merge_calls (snd (RenderRegion_setup g r))) (fst (RenderRegion_setup g r))"
      by simp
    have "unloaded_units (calls g1) = unloaded_units (calls g) @ manual_chunks r"
      unfolding g1 by (simp add: calls_emit unloaded_units_append observe_setup merge_calls_setup)
    moreover have "chunks r1 = chunks r"
      using m by (rule merge_fields)
    ultimately show ?thesis
      using assms(1) by (auto simp: released_or_pending_def)
  qed
next
  case (Draw tm)
  with assms(2) have d: "RenderRegion_draw tm g r = (g1, r1)"
    by simp
  have "unloaded_units (calls (fst (RenderRegion_draw tm g r))) = unloaded_units (calls g)"
    by (simp add: RenderRegion_draw_def case_prod_beta calls_emit unloaded_units_append
        observe_setup unloaded_units_draw_calls)
  with d have "unloaded_units (calls g1) = unloaded_units (calls g)"
    by simp
  moreover have "chunks r1 = chunks r" "manual_chunks r1 = manual_chunks r"
    using draw_fields(1,2) [of tm g r] d by simp_all
  ultimately show ?thesis
    using assms(1) by (simp add: released_or_pending_def)
next
  case Unload
  with assms(2) have "chunks r1 = []"
    by (auto simp: RenderRegion_unload_def)
  then show ?thesis
    by (simp add: released_or_pending_def)
qed

lemma released_or_pending_init: "released_or_pending g (RenderRegion_init x z s i)"
  by (simp add: released_or_pending_def RenderRegion_init_def)

lemma released_or_pending_run:
  assumes "released_or_pending g r" and "region_run ops (g, r) = Inr (g1, r1)"
  shows "released_or_pending g1 r1"
  using assms
proof (induction ops arbitrary: g r)
  case Nil
  then show ?case by simp
next
  case (Cons x xs)
  from Cons.prems(2) obtain g2 r2 where s: "region_step x (g, r) = Inr (g2, r2)"
      and rest: "region_run xs (g2, r2) = Inr (g1, r1)"
    by (auto split: sum.splits)
  from Cons.prems(1) s have "released_or_pending g2 r2"
    by (rule released_or_pending_step)
  then show ?case
    using rest by (rule Cons.IH)
qed

subsection \<open>Draining the queue\<close>

lemma region_coords_nonzero:
  "region_size m \<noteq> 0 \<Longrightarrow> region_coords m x z = Inr (x div region_size m, z div region_size m)"
  by (simp add: region_coords_def)

lemma RenderRegion_inv_init: "RenderRegion_inv (RenderRegion_init x z s i)"
  by (simp add: RenderRegion_inv_def RenderRegion_init_def)

lemma RenderRegion_inv_add:
  assumes "RenderRegion_inv r"
  shows "RenderRegion_inv (RenderRegion_add_render_chunk r u)"
proof -
  have "distinct (map fst (AList.update (chunk_coords u) u (chunks r)))"
    using assms by (simp add: RenderRegion_inv_def distinct_update)
  moreover have "\<forall>(c, v) \<in> set (AList.update (chunk_coords u) u (chunks r)). c = chunk_coords v"
    using assms set_update_subset [of "chunk_coords u" u "chunks r"]
    by (auto simp: RenderRegion_inv_def)
  moreover have "\<forall>v \<in> set (manual_chunks r @ [u]).
      chunk_coords v \<in> fst ` set (AList.update (chunk_coords u) u (chunks r))"
    using assms by (auto simp: RenderRegion_inv_def dom_update)
  ultimately show ?thesis
    by (simp add: RenderRegion_inv_def add_fields)
qed

lemma RenderRegion_inv_cong:
  "chunks r1 = chunks r \<Longrightarrow> set (manual_chunks r1) \<subseteq> set (manual_chunks r) \<Longrightarrow>
   RenderRegion_inv r \<Longrightarrow> RenderRegion_inv r1"
  by (auto simp: RenderRegion_inv_def)

lemma RenderRegion_inv_nonempty:
  "RenderRegion_inv r \<Longrightarrow> manual_chunks r = [] \<or> chunks r \<noteq> []"
  by (cases "manual_chunks r") (auto simp: RenderRegion_inv_def)

lemma map_of_route_chunk:
  "map_of (route_chunk m u rc) k =
     (if k = rc
      then Some (RenderRegion_add_render_chunk
             (case map_of (regions m) rc of
                None \<Rightarrow> RenderRegion_init (fst rc) (snd rc) (region_size m) (manager_identifier m)
              | Some r \<Rightarrow> r) u)
      else map_of (regions m) k)"
  by (auto simp: route_chunk_def map_of_map_entry update_conv')

lemma distinct_route_chunk:
  "distinct (map fst (regions m)) \<Longrightarrow> distinct (map fst (route_chunk m u rc))"
  by (simp add: route_chunk_def distinct_map_entry distinct_update)

lemma contains_add:
  "RenderRegion_contains (RenderRegion_add_render_chunk r u) c =
     (c = chunk_coords u \<or> RenderRegion_contains r c)"
  by (auto simp: RenderRegion_contains_def add_fields update_conv')

lemma merge_chunk_temp_loop_rule:
  assumes "region_size m \<noteq> 0" and "n \<le> length (chunk_temp m)" and "P m"
    and step: "\<And>m u rest. region_size m \<noteq> 0 \<Longrightarrow> chunk_temp m = u # rest \<Longrightarrow> P m \<Longrightarrow>
       P (m\<lparr>chunk_temp := rest,
            regions := route_chunk m u (cx u div region_size m, cz u div region_size m)\<rparr>)"
  shows "\<exists>m1. merge_chunk_temp_loop n m = Inr m1 \<and> P m1 \<and>
           region_size m1 = region_size m \<and> manager_identifier m1 = manager_identifier m \<and>
           chunk_temp_set m1 = chunk_temp_set m \<and> chunk_temp m1 = drop n (chunk_temp m)"
  using assms(1-3)
proof (induction n arbitrary: m)
  case 0
  then show ?case by simp
next
  case (Suc n)
  then obtain u rest where q: "chunk_temp m = u # rest"
    by (cases "chunk_temp m") auto
  let ?m = "m\<lparr>chunk_temp := rest,
               regions := route_chunk m u (cx u div region_size m, cz u div region_size m)\<rparr>"
  have l: "merge_chunk_temp_loop (Suc n) m = merge_chunk_temp_loop n ?m"
    using Suc.prems(1) q by (simp add: region_coords_def)
  have "P ?m"
    using Suc.prems(1) q Suc.prems(3) by (rule step)
  moreover have "region_size ?m \<noteq> 0" "n \<le> length (chunk_temp ?m)"
    using Suc.prems q by simp_all
  ultimately obtain m1 where "merge_chunk_temp_loop n ?m = Inr m1" "P m1"
      "region_size m1 = region_size ?m" "manager_identifier m1 = manager_identifier ?m"
      "chunk_temp_set m1 = chunk_temp_set ?m" "chunk_temp m1 = drop n (chunk_temp ?m)"
    using Suc.IH [of ?m] by blast
  with l q show ?case
    by simp
qed

lemma merge_chunk_temp_rule:
  assumes "region_size m \<noteq> 0" and "P m"
    and step: "\<And>m u rest. region_size m \<noteq> 0 \<Longrightarrow> chunk_temp m = u # rest \<Longrightarrow> P m \<Longrightarrow>
       P (m\<lparr>chunk_temp := rest,
            regions := route_chunk m u (cx u div region_size m, cz u div region_size m)\<rparr>)"
  shows "\<exists>m1. merge_chunk_temp m = Inr (m1\<lparr>chunk_temp_set := {}\<rparr>) \<and> P m1 \<and>
           region_size m1 = region_size m \<and> manager_identifier m1 = manager_identifier m \<and>
           chunk_temp_set m1 = chunk_temp_set m \<and> chunk_temp m1 = []"
proof -
  obtain m1 where "merge_chunk_temp_loop (length (chunk_temp m)) m = Inr m1" "P m1"
      "region_size m1 = region_size m" "manager_identifier m1 = manager_identifier m"
      "chunk_temp_set m1 = chunk_temp_set m" "chunk_temp m1 = drop (length (chunk_temp m)) (chunk_temp m)"
    using merge_chunk_temp_loop_rule [of m "length (chunk_temp m)" P, OF assms(1) le_refl assms(2) step]
    by blast
  then show ?thesis
    by (auto simp: merge_chunk_temp_def)
qed

lemma routed_route_same:
  assumes "region_size m \<noteq> 0"
  shows "routed (m\<lparr>chunk_temp := rest,
                  regions := route_chunk m u (cx u div region_size m, cz u div region_size m)\<rparr>) u"
  using assms by (simp add: routed_def region_coords_def map_of_route_chunk add_fields contains_add)

lemma routed_route_mono:
  assumes "region_size m \<noteq> 0" and "routed m v"
  shows "routed (m\<lparr>chunk_temp := rest,
                  regions := route_chunk m u (cx u div region_size m, cz u div region_size m)\<rparr>) v"
  using assms
  by (auto simp: routed_def region_coords_def map_of_route_chunk add_fields contains_add
      split: option.splits)

lemma drain_routes:
  assumes "region_size m \<noteq> 0"
  shows "\<exists>m1. merge_chunk_temp m = Inr m1 \<and> chunk_temp m1 = [] \<and> chunk_temp_set m1 = {} \<and>
           region_size m1 = region_size m \<and>
           (\<forall>u \<in> set (chunk_temp m). routed m1 u) \<and> (\<forall>u. routed m u \<longrightarrow> routed m1 u)"
proof -
  define q where "q = chunk_temp m"
  define P where "P = (\<lambda>m'. (\<forall>u \<in> set q. u \<in> set (chunk_temp m') \<or> routed m' u) \<and>
                              (\<forall>u. routed m u \<longrightarrow> routed m' u))"
  have "P m"
    by (simp add: P_def q_def)
  moreover have "P (m'\<lparr>chunk_temp := rest,
            regions := route_chunk m' u (cx u div region_size m', cz u div region_size m')\<rparr>)"
    (is "P ?m") if h: "region_size m' \<noteq> 0" "chunk_temp m' = u # rest" "P m'" for m' u rest
  proof -
    have same: "routed ?m u"
      using h(1) by (rule routed_route_same)
    have mono: "routed ?m v" if "routed m' v" for v
      using h(1) that by (rule routed_route_mono)
    have "v \<in> set (chunk_temp ?m) \<or> routed ?m v" if "v \<in> set q" for v
    proof -
      from h(3) that have "v \<in> set (chunk_temp m') \<or> routed m' v"
        by (simp add: P_def)
      with h(2) have "v = u \<or> v \<in> set rest \<or> routed m' v"
        by auto
      with same mono show ?thesis
        by auto
    qed
    moreover have "routed ?m v" if "routed m v" for v
      using h(3) that mono by (simp add: P_def)
    ultimately show ?thesis
      by (simp add: P_def)
  qed
  ultimately obtain m1 where m1: "merge_chunk_temp m = Inr (m1\<lparr>chunk_temp_set := {}\<rparr>)" "P m1"
      "region_size m1 = region_size m" "chunk_temp m1 = []"
    using merge_chunk_temp_rule [of m P, OF assms] by blast
  have "routed (m1\<lparr>chunk_temp_set := {}\<rparr>) u = routed m1 u" for u
    by (simp add: routed_def region_coords_def)
  with m1 show ?thesis
    unfolding P_def q_def by auto
qed


subsection \<open>Drawing the regions\<close>

lemma routed_contains:
  "routed m u \<Longrightarrow> ChunkManager_contains m (chunk_coords u) = Inr True"
  by (auto simp: routed_def ChunkManager_contains_def chunk_coords_def region_coords_def
      split: sum.splits option.splits if_splits)

lemma same_units_draw: "same_units r (snd (RenderRegion_draw tm g r))"
  by (simp add: same_units_def draw_fields)

lemma draw_regions_rel:
  "list_all2 (\<lambda>a b. fst b = fst a \<and> same_units (snd a) (snd b)) regs (snd (draw_regions tm g regs))"
proof (induction regs arbitrary: g)
  case Nil
  then show ?case by simp
next
  case (Cons a regs)
  obtain k r where a: "a = (k, r)" by (cases a)
  show ?case
    using Cons.IH [of "fst (RenderRegion_draw tm g r)"] same_units_draw [of r tm g]
    by (simp add: a case_prod_beta)
qed

lemma map_of_rel:
  "list_all2 (\<lambda>a b. fst b = fst a \<and> Q (snd a) (snd b)) xs ys \<Longrightarrow>
   rel_option Q (map_of xs k) (map_of ys k)"
  by (induction xs ys rule: list_all2_induct) auto

lemma keys_rel:
  "list_all2 (\<lambda>a b. fst b = fst a \<and> Q (snd a) (snd b)) xs ys \<Longrightarrow> map fst ys = map fst xs"
  by (induction xs ys rule: list_all2_induct) auto




lemma new_calls_append: "calls g1 = calls g @ cs \<Longrightarrow> new_calls g g1 = cs"
  by (simp add: new_calls_def)

lemma add_all_fields:
  "region_size (foldl ChunkManager_add_render_chunk m us) = region_size m"
  "regions (foldl ChunkManager_add_render_chunk m us) = regions m"
  "chunk_temp (foldl ChunkManager_add_render_chunk m us) = chunk_temp m @ us"
  "chunk_temp_set (foldl ChunkManager_add_render_chunk m us) = chunk_temp_set m \<union> chunk_coords ` set us"
  by (induction us arbitrary: m) (simp_all add: ChunkManager_add_render_chunk_def chunk_coords_def)

lemma draw_succeeds:
  assumes "region_size m \<noteq> 0"
  shows "\<exists>m1. ChunkManager_draw tm g m = Inr (fst (draw_regions tm g (regions m)), m1) \<and>
           merge_chunk_temp (m\<lparr>regions := snd (draw_regions tm g (regions m))\<rparr>) = Inr m1 \<and>
           chunk_temp m1 = [] \<and> chunk_temp_set m1 = {} \<and> region_size m1 = region_size m \<and>
           (\<forall>u \<in> set (chunk_temp m). routed m1 u)"
proof -
  let ?m = "m\<lparr>regions := snd (draw_regions tm g (regions m))\<rparr>"
  have "region_size ?m \<noteq> 0"
    using assms by simp
  then obtain m1 where "merge_chunk_temp ?m = Inr m1" "chunk_temp m1 = []" "chunk_temp_set m1 = {}"
      "region_size m1 = region_size ?m" "\<forall>u \<in> set (chunk_temp ?m). routed m1 u"
    using drain_routes [of ?m] by blast
  then show ?thesis
    by (simp add: ChunkManager_draw_def case_prod_beta)
qed

text \<open>
  Claim C7. With a region size other than 0 (at 0 the floor division raises): a submitted
  coordinate is contained right after its submission and after every further submission,
  the draw call that follows returns with the queue drained, and every submitted
  coordinate is still contained after it.
\<close>

theorem submitted_reachable:
  assumes "region_size m \<noteq> 0"
  shows "ChunkManager_contains (ChunkManager_add_render_chunk m v) (chunk_coords v) = Inr True \<and>
         (\<forall>u \<in> set us.
            ChunkManager_contains (foldl ChunkManager_add_render_chunk m us) (chunk_coords u) = Inr True) \<and>
         (\<exists>g1 m1. ChunkManager_draw tm g (foldl ChunkManager_add_render_chunk m us) = Inr (g1, m1) \<and>
            chunk_temp m1 = [] \<and>
            (\<forall>u \<in> set us. ChunkManager_contains m1 (chunk_coords u) = Inr True))"
proof -
  let ?m = "foldl ChunkManager_add_render_chunk m us"
  have 1: "ChunkManager_contains (ChunkManager_add_render_chunk m v) (chunk_coords v) = Inr True"
    using assms
    by (simp add: ChunkManager_contains_def ChunkManager_add_render_chunk_def region_coords_def
        chunk_coords_def)
  have 2: "ChunkManager_contains ?m (chunk_coords u) = Inr True" if "u \<in> set us" for u
    using assms that
    by (simp add: ChunkManager_contains_def region_coords_def add_all_fields)
  have "region_size ?m \<noteq> 0"
    using assms by (simp add: add_all_fields)
  then obtain m1 where m1: "ChunkManager_draw tm g ?m = Inr (fst (draw_regions tm g (regions ?m)), m1)"
      "chunk_temp m1 = []" "\<forall>u \<in> set (chunk_temp ?m). routed m1 u"
    using draw_succeeds [of ?m tm g] by blast
  have "ChunkManager_contains m1 (chunk_coords u) = Inr True" if "u \<in> set us" for u
    using m1(3) that by (intro routed_contains) (simp add: add_all_fields)
  with 1 2 m1(1,2) show ?thesis
    by blast
qed

theorem submitted_reachable_witness:
  "region_size manager_0 \<noteq> 0 \<and>
   ChunkManager_contains (foldl ChunkManager_add_render_chunk manager_0 [unit_A, unit_C, unit_D])
     (20, 0) = Inr True \<and>
   (\<exists>g1 m1. ChunkManager_draw (Camera 1) gl_init
        (foldl ChunkManager_add_render_chunk manager_0 [unit_A, unit_C, unit_D]) = Inr (g1, m1) \<and>
      chunk_temp m1 = [] \<and> ChunkManager_contains m1 (- 1, - 17) = Inr True)"
proof -
  have h: "region_size manager_0 \<noteq> 0"
    by (simp add: manager_0_def ChunkManager_init_def)
  have c: "chunk_coords unit_C = (20, 0)" "chunk_coords unit_D = (- 1, - 17)"
    by (simp_all add: chunk_coords_def unit_C_def unit_D_def)
  show ?thesis
    using submitted_reachable [OF h, of unit_A "[unit_A, unit_C, unit_D]" "Camera 1" gl_init] h
    by (auto simp: c)
qed

subsection \<open>The order of a draw call\<close>






subsection \<open>Unloading everything\<close>

lemma contains_empty:
  "region_size m \<noteq> 0 \<Longrightarrow> regions m = [] \<Longrightarrow> chunk_temp_set m = {} \<Longrightarrow>
   ChunkManager_contains m c = Inr False"
  by (simp add: ChunkManager_contains_def region_coords_def)

text \<open>
  Claim C6. \<^verbatim>\<open>unload\<close> without a safe area always returns, and leaves the queue, the
  look-up set and the region map empty; so, with a region size other than 0 (at 0 the
  floor division of the membership test raises), no coordinate is contained afterwards.
\<close>

theorem unload_all:
  "\<exists>g1 m1. ChunkManager_unload None g m = Inr (g1, m1) \<and>
     regions m1 = [] \<and> chunk_temp m1 = [] \<and> chunk_temp_set m1 = {} \<and>
     region_size m1 = region_size m \<and>
     (region_size m \<noteq> 0 \<longrightarrow> (\<forall>c. ChunkManager_contains m1 c = Inr False))"
  by (simp add: ChunkManager_unload_def case_prod_beta contains_empty)

theorem unload_all_witness:
  "region_size manager_1 \<noteq> 0 \<and>
   (\<exists>g1 m1. ChunkManager_unload None gl_init manager_1 = Inr (g1, m1) \<and>
      regions m1 = [] \<and> chunk_temp m1 = [] \<and> chunk_temp_set m1 = {} \<and>
      ChunkManager_contains m1 (0, 0) = Inr False \<and> ChunkManager_contains m1 (20, 0) = Inr False)"
proof -
  have h: "region_size manager_1 \<noteq> 0"
    by (simp add: manager_1_def)
  show ?thesis
    using unload_all [of gl_init manager_1] h by auto
qed

subsection \<open>The invariant of the manager\<close>

lemma region_coords_cong:
  "region_size m1 = region_size m \<Longrightarrow> region_coords m1 x z = region_coords m x z"
  by (simp add: region_coords_def)

lemma region_coords_update:
  "region_coords (m\<lparr>regions := a\<rparr>) = region_coords m"
  "region_coords (m\<lparr>chunk_temp := b\<rparr>) = region_coords m"
  "region_coords (m\<lparr>chunk_temp_set := c\<rparr>) = region_coords m"
  by (simp_all add: fun_eq_iff region_coords_def)

lemma inv_lookup:
  assumes "ChunkManager_inv m" and "map_of (regions m) k = Some r"
  shows "(rx r, rz r) = k" and "RenderRegion_inv r"
    and "\<forall>(c, u) \<in> set (chunks r). region_coords m (fst c) (snd c) = Inr k"
proof -
  from assms(2) have "(k, r) \<in> set (regions m)"
    by (rule map_of_SomeD)
  with assms(1) show "(rx r, rz r) = k" and "RenderRegion_inv r"
    and "\<forall>(c, u) \<in> set (chunks r). region_coords m (fst c) (snd c) = Inr k"
    unfolding ChunkManager_inv_def by blast+
qed

lemma invI:
  assumes "region_size m \<noteq> 0" and "distinct (map fst (regions m))"
    and "\<And>k r. map_of (regions m) k = Some r \<Longrightarrow>
           (rx r, rz r) = k \<and> RenderRegion_inv r \<and>
           (\<forall>(c, u) \<in> set (chunks r). region_coords m (fst c) (snd c) = Inr k)"
    and "\<forall>u \<in> set (chunk_temp m). chunk_coords u \<in> chunk_temp_set m"
  shows "ChunkManager_inv m"
  unfolding ChunkManager_inv_def
proof (intro conjI)
  show "\<forall>(k, r) \<in> set (regions m). (rx r, rz r) = k \<and> RenderRegion_inv r \<and>
          (\<forall>(c, u) \<in> set (chunks r). region_coords m (fst c) (snd c) = Inr k)"
  proof (clarify)
    fix k1 k2 r
    assume "((k1, k2), r) \<in> set (regions m)"
    with assms(2) have "map_of (regions m) (k1, k2) = Some r"
      by simp
    then show "(rx r, rz r) = (k1, k2) \<and> RenderRegion_inv r \<and>
        (\<forall>(c, u) \<in> set (chunks r). region_coords m (fst c) (snd c) = Inr (k1, k2))"
      by (rule assms(3))
  qed
qed (use assms in simp_all)

lemma inv_init: "rsize \<noteq> 0 \<Longrightarrow> ChunkManager_inv (ChunkManager_init ident rsize)"
  by (simp add: ChunkManager_inv_def ChunkManager_init_def)

lemma inv_add:
  "ChunkManager_inv m \<Longrightarrow> ChunkManager_inv (ChunkManager_add_render_chunk m u)"
  by (auto simp: ChunkManager_inv_def ChunkManager_add_render_chunk_def region_coords_update
      chunk_coords_def)

lemma inv_route:
  assumes "ChunkManager_inv m" and "chunk_temp m = u # rest"
  shows "ChunkManager_inv (m\<lparr>chunk_temp := rest,
            regions := route_chunk m u (cx u div region_size m, cz u div region_size m)\<rparr>)"
    (is "ChunkManager_inv ?m")
proof (rule invI)
  let ?rc = "(cx u div region_size m, cz u div region_size m)"
  have rs: "region_size m \<noteq> 0"
    using assms(1) by (simp add: ChunkManager_inv_def)
  then show "region_size ?m \<noteq> 0"
    by simp
  show "distinct (map fst (regions ?m))"
    using assms(1) by (simp add: ChunkManager_inv_def distinct_route_chunk)
  show "\<forall>v \<in> set (chunk_temp ?m). chunk_coords v \<in> chunk_temp_set ?m"
    using assms by (simp add: ChunkManager_inv_def)
  have rc: "region_coords ?m x z = region_coords m x z" for x z
    by (simp add: region_coords_update)
  have u: "region_coords m (cx u) (cz u) = Inr ?rc"
    using rs by (simp add: region_coords_def)
  fix k r
  assume "map_of (regions ?m) k = Some r"
  then have look: "map_of (route_chunk m u ?rc) k = Some r"
    by simp
  show "(rx r, rz r) = k \<and> RenderRegion_inv r \<and>
        (\<forall>(c, v) \<in> set (chunks r). region_coords ?m (fst c) (snd c) = Inr k)"
  proof (cases "k = ?rc")
    case False
    with look have "map_of (regions m) k = Some r"
      by (simp add: map_of_route_chunk)
    then show ?thesis
      using inv_lookup [OF assms(1)] by (simp add: rc)
  next
    case True
    define r0 where "r0 = (case map_of (regions m) ?rc of
        None \<Rightarrow> RenderRegion_init (fst ?rc) (snd ?rc) (region_size m) (manager_identifier m)
      | Some r \<Rightarrow> r)"
    have r: "r = RenderRegion_add_render_chunk r0 u"
      using look True unfolding r0_def by (simp add: map_of_route_chunk)
    have r0: "(rx r0, rz r0) = ?rc \<and> RenderRegion_inv r0 \<and>
        (\<forall>(c, v) \<in> set (chunks r0). region_coords m (fst c) (snd c) = Inr ?rc)"
    proof (cases "map_of (regions m) ?rc")
      case None
      then have "r0 = RenderRegion_init (fst ?rc) (snd ?rc) (region_size m) (manager_identifier m)"
        by (simp add: r0_def)
      then show ?thesis
        by (simp add: RenderRegion_inv_init) (simp add: RenderRegion_init_def)
    next
      case (Some a)
      then have "r0 = a"
        by (simp add: r0_def)
      with Some show ?thesis
        using inv_lookup [OF assms(1), of ?rc a] by simp
    qed
    have "region_coords m (fst c) (snd c) = Inr ?rc" if "(c, v) \<in> set (chunks r)" for c v
    proof -
      from that have "(c, v) = (chunk_coords u, u) \<or> (c, v) \<in> set (chunks r0)"
        using set_update_subset [of "chunk_coords u" u "chunks r0"] by (auto simp: r add_fields)
      then show ?thesis
        using r0 u by (auto simp: chunk_coords_def)
    qed
    then have "\<forall>(c, v) \<in> set (chunks r). region_coords ?m (fst c) (snd c) = Inr k"
      using True by (auto simp: rc)
    moreover have "RenderRegion_inv r"
      using r0 by (simp add: r RenderRegion_inv_add)
    moreover have "(rx r, rz r) = k"
      using r0 True by (simp add: r add_fields)
    ultimately show ?thesis
      by simp
  qed
qed

lemma inv_clear_set:
  "ChunkManager_inv m \<Longrightarrow> chunk_temp m = [] \<Longrightarrow> ChunkManager_inv (m\<lparr>chunk_temp_set := {}\<rparr>)"
  by (simp add: ChunkManager_inv_def region_coords_update)

lemma inv_drain:
  assumes "ChunkManager_inv m"
  shows "\<exists>m1. merge_chunk_temp m = Inr m1 \<and> ChunkManager_inv m1"
proof -
  have "region_size m \<noteq> 0"
    using assms by (simp add: ChunkManager_inv_def)
  then obtain m1 where "merge_chunk_temp m = Inr (m1\<lparr>chunk_temp_set := {}\<rparr>)"
      "ChunkManager_inv m1" "chunk_temp m1 = []"
    using merge_chunk_temp_rule [of m ChunkManager_inv] assms inv_route by blast
  then show ?thesis
    using inv_clear_set by blast
qed

lemma inv_same_units:
  assumes "ChunkManager_inv m"
    and "list_all2 (\<lambda>a b. fst b = fst a \<and> same_units (snd a) (snd b)) (regions m) regs"
  shows "ChunkManager_inv (m\<lparr>regions := regs\<rparr>)"
proof (rule invI)
  show "region_size (m\<lparr>regions := regs\<rparr>) \<noteq> 0"
    using assms(1) by (simp add: ChunkManager_inv_def)
  show "distinct (map fst (regions (m\<lparr>regions := regs\<rparr>)))"
    using assms(1) keys_rel [OF assms(2)] by (simp add: ChunkManager_inv_def)
  show "\<forall>u \<in> set (chunk_temp (m\<lparr>regions := regs\<rparr>)). chunk_coords u \<in> chunk_temp_set (m\<lparr>regions := regs\<rparr>)"
    using assms(1) by (simp add: ChunkManager_inv_def)
  fix k r1
  assume "map_of (regions (m\<lparr>regions := regs\<rparr>)) k = Some r1"
  then have "map_of regs k = Some r1"
    by simp
  with map_of_rel [OF assms(2), of k] obtain r where r: "map_of (regions m) k = Some r" "same_units r r1"
    by (auto simp: option_rel_Some2)
  from r(2) inv_lookup(2) [OF assms(1) r(1)] have "RenderRegion_inv r1"
    by (intro RenderRegion_inv_cong [of r1 r]) (simp_all add: same_units_def)
  then show "(rx r1, rz r1) = k \<and> RenderRegion_inv r1 \<and>
      (\<forall>(c, u) \<in> set (chunks r1). region_coords (m\<lparr>regions := regs\<rparr>) (fst c) (snd c) = Inr k)"
    using r(2) inv_lookup(1,3) [OF assms(1) r(1)]
    by (simp add: same_units_def region_coords_update)
qed

lemma inv_draw:
  assumes "ChunkManager_inv m"
  shows "\<exists>g1 m1. ChunkManager_draw tm g m = Inr (g1, m1) \<and> ChunkManager_inv m1"
proof -
  have "ChunkManager_inv (m\<lparr>regions := snd (draw_regions tm g (regions m))\<rparr>)"
    using assms draw_regions_rel by (rule inv_same_units)
  then obtain m1 where "merge_chunk_temp (m\<lparr>regions := snd (draw_regions tm g (regions m))\<rparr>) = Inr m1"
      "ChunkManager_inv m1"
    using inv_drain by blast
  then show ?thesis
    by (simp add: ChunkManager_draw_def case_prod_beta)
qed

lemma inv_resident:
  assumes "ChunkManager_inv m" and "resident m c k"
  shows "region_coords m (fst c) (snd c) = Inr k"
proof -
  from assms(2) obtain r u where r: "map_of (regions m) k = Some r" "map_of (chunks r) c = Some u"
    by (auto simp: resident_def RenderRegion_contains_def split: option.splits)
  from r(2) have "(c, u) \<in> set (chunks r)"
    by (rule map_of_SomeD)
  with inv_lookup(3) [OF assms(1) r(1)] show ?thesis
    by auto
qed

lemma floor_div_int: "\<lfloor>real_of_int x / real_of_int y\<rfloor> = x div y"
  by (rule floor_divide_of_int_eq)

text \<open>
  Claim C8. With a region size of 16 the region coordinate of a chunk coordinate is the
  pair of the floors of its components divided by 16 (and so for every region size other
  than 0). From a state that satisfies the invariant of the manager (every state the
  operations reach from a new manager), a draw call returns, and after its drain a chunk
  coordinate is resident in at most one region of the map: the one stored under its
  region coordinate.
\<close>

theorem region_coords_floor_unique:
  assumes "ChunkManager_inv m"
  shows "(region_size m = 16 \<longrightarrow>
            region_coords m x z = Inr (\<lfloor>real_of_int x / 16\<rfloor>, \<lfloor>real_of_int z / 16\<rfloor>)) \<and>
         region_coords m x z =
            Inr (\<lfloor>real_of_int x / real_of_int (region_size m)\<rfloor>,
                 \<lfloor>real_of_int z / real_of_int (region_size m)\<rfloor>) \<and>
         (\<exists>g1 m1. ChunkManager_draw tm g m = Inr (g1, m1) \<and>
            (\<forall>c k. resident m1 c k \<longrightarrow> region_coords m1 (fst c) (snd c) = Inr k) \<and>
            (\<forall>c k1 k2. resident m1 c k1 \<and> resident m1 c k2 \<longrightarrow> k1 = k2))"
proof -
  have rs: "region_size m \<noteq> 0"
    using assms by (simp add: ChunkManager_inv_def)
  then have general: "region_coords m x z =
      Inr (\<lfloor>real_of_int x / real_of_int (region_size m)\<rfloor>,
           \<lfloor>real_of_int z / real_of_int (region_size m)\<rfloor>)"
    by (simp add: region_coords_def floor_div_int)
  then have sixteen: "region_coords m x z = Inr (\<lfloor>real_of_int x / 16\<rfloor>, \<lfloor>real_of_int z / 16\<rfloor>)"
    if "region_size m = 16"
    using that by simp
  obtain g1 m1 where d: "ChunkManager_draw tm g m = Inr (g1, m1)" "ChunkManager_inv m1"
    using inv_draw [OF assms] by blast
  have one: "region_coords m1 (fst c) (snd c) = Inr k" if "resident m1 c k" for c k
    using d(2) that by (rule inv_resident)
  have "k1 = k2" if "resident m1 c k1" "resident m1 c k2" for c k1 k2
    using one [OF that(1)] one [OF that(2)] by simp
  with general sixteen d(1) one show ?thesis
    by blast
qed

lemma inv_manager_1: "ChunkManager_inv manager_1"
  by (simp add: ChunkManager_inv_def manager_1_def RenderRegion_inv_def RenderRegion_add_render_chunk_def
      region_0_def RenderRegion_init_def region_coords_def chunk_coords_def
      unit_A_def unit_C_def unit_D_def)

theorem region_coords_floor_unique_witness:
  "ChunkManager_inv manager_1 \<and> region_size manager_1 = 16 \<and>
   region_coords manager_1 (- 1) (- 17) = Inr (\<lfloor>real_of_int (- 1) / 16\<rfloor>, \<lfloor>real_of_int (- 17) / 16\<rfloor>) \<and>
   (\<exists>g1 m1. ChunkManager_draw (Camera 1) gl_init manager_1 = Inr (g1, m1) \<and>
      (\<forall>c k1 k2. resident m1 c k1 \<and> resident m1 c k2 \<longrightarrow> k1 = k2))"
proof -
  have s: "region_size manager_1 = 16"
    by (simp add: manager_1_def)
  show ?thesis
    using region_coords_floor_unique [OF inv_manager_1, of "- 1" "- 17" "Camera 1" gl_init] s
      inv_manager_1
    by auto
qed

subsection \<open>The eviction pass\<close>

lemma merge_calls_grow:
  assumes "RenderRegion_merge g r = Inr (g1, r1)"
  shows "\<exists>cs. calls g1 = calls g @ cs"
proof (cases "manual_chunks r = []")
  case True
  with assms have "g1 = fst (RenderRegion_setup g r)"
    by (simp add: merge_no_pending)
  then show ?thesis
    by (simp add: setup_calls_gl)
next
  case False
  with assms have ne: "chunks r \<noteq> []"
    by (auto simp: RenderRegion_merge_def case_prod_beta setup_fields split: if_splits)
  from assms merge_pending [OF False ne, of g]
  have "g1 = emit (merge_calls (snd (RenderRegion_setup g r))) (fst (RenderRegion_setup g r))"
    by simp
  then show ?thesis
    by (simp add: calls_emit setup_calls_gl)
qed

lemma evicted_merge:
  assumes "RenderRegion_inv r" and "in_box lo hi r"
  shows "\<exists>g1 r1 cs. RenderRegion_merge g r = Inr (g1, r1) \<and> evicted lo hi r r1 \<and>
           calls g1 = calls g @ cs"
proof -
  obtain g1 r1 where m: "RenderRegion_merge g r = Inr (g1, r1)"
    using merge_succeeds [OF RenderRegion_inv_nonempty [OF assms(1)]] by blast
  then have "evicted lo hi r r1"
    using assms(2) merge_fields [OF m] by (simp add: evicted_def)
  with m merge_calls_grow [OF m] show ?thesis
    by blast
qed

lemma evicted_unload:
  assumes "\<not> in_box lo hi r"
  shows "evicted lo hi r (snd (RenderRegion_unload g r))"
    and "calls (fst (RenderRegion_unload g r)) = calls g @ unload_calls r"
    and "rx (snd (RenderRegion_unload g r)) = rx r" and "rz (snd (RenderRegion_unload g r)) = rz r"
  using assms by (simp_all add: evicted_def RenderRegion_unload_def calls_emit)

lemma evict_regions_spec:
  assumes "\<forall>(k, r) \<in> set regs. (rx r, rz r) = k \<and> RenderRegion_inv r"
  shows "\<exists>g1 regs1 cs.
           evict_regions lo hi g regs =
             Inr (g1, regs1, map fst (filter (\<lambda>a. \<not> in_box lo hi (snd a)) regs)) \<and>
           list_all2 (\<lambda>a b. fst b = fst a \<and> evicted lo hi (snd a) (snd b)) regs regs1 \<and>
           calls g1 = calls g @ cs \<and>
           (\<forall>(k, r) \<in> set regs. \<not> in_box lo hi r \<longrightarrow> set (unload_calls r) \<subseteq> set cs)"
  using assms
proof (induction regs arbitrary: g)
  case Nil
  then show ?case by simp
next
  case (Cons a regs)
  obtain k r where a: "a = (k, r)" by (cases a)
  from Cons.prems a have r: "(rx r, rz r) = k" "RenderRegion_inv r"
    and rest: "\<forall>(k, r) \<in> set regs. (rx r, rz r) = k \<and> RenderRegion_inv r"
    by auto
  let ?D = "map fst (filter (\<lambda>a. \<not> in_box lo hi (snd a)) regs)"
  show ?case
  proof (cases "in_box lo hi r")
    case True
    obtain g1 r1 cs where m: "RenderRegion_merge g r = Inr (g1, r1)" "evicted lo hi r r1"
        "calls g1 = calls g @ cs"
      using evicted_merge [OF r(2) True] by blast
    obtain g2 regs1 ds where e: "evict_regions lo hi g1 regs = Inr (g2, regs1, ?D)"
        "list_all2 (\<lambda>a b. fst b = fst a \<and> evicted lo hi (snd a) (snd b)) regs regs1"
        "calls g2 = calls g1 @ ds"
        "\<forall>(k, r) \<in> set regs. \<not> in_box lo hi r \<longrightarrow> set (unload_calls r) \<subseteq> set ds"
      using Cons.IH [OF rest, of g1] by blast
    have "evict_regions lo hi g (a # regs) =
        Inr (g2, (k, r1) # regs1, map fst (filter (\<lambda>a. \<not> in_box lo hi (snd a)) (a # regs)))"
      using True m(1) e(1) by (simp add: a)
    moreover have "list_all2 (\<lambda>a b. fst b = fst a \<and> evicted lo hi (snd a) (snd b))
        (a # regs) ((k, r1) # regs1)"
      using m(2) e(2) by (simp add: a)
    moreover have "calls g2 = calls g @ (cs @ ds)"
      using m(3) e(3) by simp
    moreover have "\<forall>(k, r) \<in> set (a # regs). \<not> in_box lo hi r \<longrightarrow>
        set (unload_calls r) \<subseteq> set (cs @ ds)"
      using True e(4) by (auto simp: a)
    ultimately show ?thesis
      by blast
  next
    case False
    let ?g1 = "fst (RenderRegion_unload g r)"
    let ?r1 = "snd (RenderRegion_unload g r)"
    note u = evicted_unload [OF False, of g]
    obtain g2 regs1 ds where e: "evict_regions lo hi ?g1 regs = Inr (g2, regs1, ?D)"
        "list_all2 (\<lambda>a b. fst b = fst a \<and> evicted lo hi (snd a) (snd b)) regs regs1"
        "calls g2 = calls ?g1 @ ds"
        "\<forall>(k, r) \<in> set regs. \<not> in_box lo hi r \<longrightarrow> set (unload_calls r) \<subseteq> set ds"
      using Cons.IH [OF rest, of ?g1] by blast
    have "evict_regions lo hi g (a # regs) =
        Inr (g2, (k, ?r1) # regs1, map fst (filter (\<lambda>a. \<not> in_box lo hi (snd a)) (a # regs)))"
      using False e(1) r(1) u(3,4) by (simp add: a case_prod_beta)
    moreover have "list_all2 (\<lambda>a b. fst b = fst a \<and> evicted lo hi (snd a) (snd b))
        (a # regs) ((k, ?r1) # regs1)"
      using u(1) e(2) by (simp add: a)
    moreover have "calls g2 = calls g @ (unload_calls r @ ds)"
      using u(2) e(3) by simp
    moreover have "\<forall>(k', r') \<in> set (a # regs). \<not> in_box lo hi r' \<longrightarrow>
        set (unload_calls r') \<subseteq> set (unload_calls r @ ds)"
      using e(4) by (auto simp: a)
    ultimately show ?thesis
      by blast
  qed
qed

lemma delete_keys_filter:
  assumes "distinct ks" and "set ks \<subseteq> fst ` set regs"
  shows "delete_keys ks regs = Inr (filter (\<lambda>e. fst e \<notin> set ks) regs)"
  using assms
proof (induction ks arbitrary: regs)
  case Nil
  then show ?case by simp
next
  case (Cons k ks)
  have present: "map_of regs k \<noteq> None"
    using Cons.prems(2) by (simp add: map_of_eq_None_iff)
  have d: "AList.delete k regs = filter (\<lambda>e. fst e \<noteq> k) regs"
    by (induction regs) auto
  have "set ks \<subseteq> fst ` set (AList.delete k regs)"
    using Cons.prems unfolding d by force
  with Cons.IH [of "AList.delete k regs"] Cons.prems(1)
  have "delete_keys ks (AList.delete k regs) = Inr (filter (\<lambda>e. fst e \<notin> set ks) (AList.delete k regs))"
    by simp
  also have "filter (\<lambda>e. fst e \<notin> set ks) (AList.delete k regs) = filter (\<lambda>e. fst e \<notin> set (k # ks)) regs"
    unfolding d by (induction regs) auto
  finally show ?case
    using present by simp
qed

lemma map_of_filter_keys:
  "map_of (filter (\<lambda>e. fst e \<notin> D) xs) k = (if k \<in> D then None else map_of xs k)"
  by (induction xs) auto

lemma eviction_spec:
  assumes "ChunkManager_inv m"
  shows "\<exists>g1 regs1 cs.
     ChunkManager_unload (Some (x0, z0, x1, z1)) g m =
       Inr (g1, m\<lparr>regions := filter (\<lambda>e. fst e \<notin>
              set (map fst (filter (\<lambda>a. \<not> in_box (x0 div region_size m, z0 div region_size m)
                                                 (x1 div region_size m, z1 div region_size m) (snd a))
                     (regions m)))) regs1\<rparr>) \<and>
     list_all2 (\<lambda>a b. fst b = fst a \<and>
        evicted (x0 div region_size m, z0 div region_size m)
                (x1 div region_size m, z1 div region_size m) (snd a) (snd b)) (regions m) regs1 \<and>
     calls g1 = calls g @ cs \<and>
     (\<forall>(k, r) \<in> set (regions m).
        \<not> in_box (x0 div region_size m, z0 div region_size m)
                 (x1 div region_size m, z1 div region_size m) r \<longrightarrow>
        set (unload_calls r) \<subseteq> set cs)"
proof -
  let ?lo = "(x0 div region_size m, z0 div region_size m)"
  let ?hi = "(x1 div region_size m, z1 div region_size m)"
  let ?D = "map fst (filter (\<lambda>a. \<not> in_box ?lo ?hi (snd a)) (regions m))"
  have rs: "region_size m \<noteq> 0" and dist: "distinct (map fst (regions m))"
    and regs: "\<forall>(k, r) \<in> set (regions m). (rx r, rz r) = k \<and> RenderRegion_inv r"
    using assms unfolding ChunkManager_inv_def by blast+
  obtain g1 regs1 cs where e: "evict_regions ?lo ?hi g (regions m) = Inr (g1, regs1, ?D)"
      "list_all2 (\<lambda>a b. fst b = fst a \<and> evicted ?lo ?hi (snd a) (snd b)) (regions m) regs1"
      "calls g1 = calls g @ cs"
      "\<forall>(k, r) \<in> set (regions m). \<not> in_box ?lo ?hi r \<longrightarrow> set (unload_calls r) \<subseteq> set cs"
    using evict_regions_spec [OF regs, of ?lo ?hi g] by blast
  have keys: "map fst regs1 = map fst (regions m)"
    using e(2) by (rule keys_rel)
  have "distinct ?D"
    using dist by (rule distinct_map_filter)
  moreover have "set ?D \<subseteq> fst ` set regs1"
  proof -
    have "set ?D \<subseteq> set (map fst (regions m))"
      by auto
    also have "\<dots> = fst ` set regs1"
      using keys by (metis set_map)
    finally show ?thesis .
  qed
  ultimately have "delete_keys ?D regs1 = Inr (filter (\<lambda>e. fst e \<notin> set ?D) regs1)"
    by (rule delete_keys_filter)
  with e(1) rs have "ChunkManager_unload (Some (x0, z0, x1, z1)) g m =
      Inr (g1, m\<lparr>regions := filter (\<lambda>e. fst e \<notin> set ?D) regs1\<rparr>)"
    by (simp add: ChunkManager_unload_def region_coords_def)
  with e(2-4) show ?thesis
    by blast
qed

lemma contains_queued:
  "region_size m \<noteq> 0 \<Longrightarrow> c \<in> chunk_temp_set m \<Longrightarrow> ChunkManager_contains m c = Inr True"
  by (simp add: ChunkManager_contains_def region_coords_def)

lemma eviction_lookup:
  assumes "distinct (map fst regs)"
    and "list_all2 (\<lambda>a b. fst b = fst a \<and> evicted lo hi (snd a) (snd b)) regs regs1"
  shows "map_of (filter (\<lambda>e. fst e \<notin> set (map fst (filter (\<lambda>a. \<not> in_box lo hi (snd a)) regs))) regs1) k
           = Some r1 \<longleftrightarrow>
         (\<exists>r. map_of regs k = Some r \<and> in_box lo hi r \<and> map_of regs1 k = Some r1 \<and>
               rx r1 = rx r \<and> rz r1 = rz r \<and> chunks r1 = chunks r \<and> manual_chunks r1 = [])"
    (is "?L = ?R")
proof -
  let ?D = "set (map fst (filter (\<lambda>a. \<not> in_box lo hi (snd a)) regs))"
  have D: "k \<in> ?D \<longleftrightarrow> (\<exists>r. map_of regs k = Some r \<and> \<not> in_box lo hi r)"
    using assms(1) by (force simp: image_iff)
  have rel: "rel_option (evicted lo hi) (map_of regs k) (map_of regs1 k)"
    using assms(2) by (rule map_of_rel)
  show ?thesis
  proof
    assume ?L
    then have k: "k \<notin> ?D" and r1: "map_of regs1 k = Some r1"
      by (simp_all add: map_of_filter_keys split: if_splits)
    from rel r1 obtain r where r: "map_of regs k = Some r" "evicted lo hi r r1"
      by (auto simp: option_rel_Some2)
    with k D have "in_box lo hi r"
      by auto
    with r r1 show ?R
      by (auto simp: evicted_def)
  next
    assume ?R
    then obtain r where r: "map_of regs k = Some r" "in_box lo hi r" "map_of regs1 k = Some r1"
      by blast
    with D have "k \<notin> ?D"
      by auto
    with r(3) show ?L
      by (simp add: map_of_filter_keys)
  qed
qed

lemma eviction_lookup_None:
  assumes "distinct (map fst regs)" and "map_of regs k = Some r" and "\<not> in_box lo hi r"
  shows "map_of (filter (\<lambda>e. fst e \<notin> set (map fst (filter (\<lambda>a. \<not> in_box lo hi (snd a)) regs))) regs1) k
           = None"
proof -
  from assms(2) have "(k, r) \<in> set regs"
    by (rule map_of_SomeD)
  with assms(3) have "k \<in> set (map fst (filter (\<lambda>a. \<not> in_box lo hi (snd a)) regs))"
    by force
  then show ?thesis
    by (simp add: map_of_filter_keys)
qed

lemma inv_eviction:
  assumes "ChunkManager_inv m"
    and "list_all2 (\<lambda>a b. fst b = fst a \<and> evicted lo hi (snd a) (snd b)) (regions m) regs1"
  shows "ChunkManager_inv (m\<lparr>regions := filter (\<lambda>e. fst e \<notin>
            set (map fst (filter (\<lambda>a. \<not> in_box lo hi (snd a)) (regions m)))) regs1\<rparr>)"
    (is "ChunkManager_inv ?m")
proof (rule invI)
  have dist: "distinct (map fst (regions m))"
    using assms(1) by (simp add: ChunkManager_inv_def)
  show "region_size ?m \<noteq> 0"
    using assms(1) by (simp add: ChunkManager_inv_def)
  have "distinct (map fst regs1)"
    using dist keys_rel [OF assms(2)] by simp
  then show "distinct (map fst (regions ?m))"
    by (simp add: distinct_map_filter)
  show "\<forall>u \<in> set (chunk_temp ?m). chunk_coords u \<in> chunk_temp_set ?m"
    using assms(1) by (simp add: ChunkManager_inv_def)
  fix k r1
  assume "map_of (regions ?m) k = Some r1"
  then obtain r where r: "map_of (regions m) k = Some r" "rx r1 = rx r" "rz r1 = rz r"
      "chunks r1 = chunks r" "manual_chunks r1 = []"
    using eviction_lookup [OF dist assms(2), of k r1] by auto
  have "RenderRegion_inv r1"
    using r(4,5) inv_lookup(2) [OF assms(1) r(1)] by (intro RenderRegion_inv_cong [of r1 r]) simp_all
  then show "(rx r1, rz r1) = k \<and> RenderRegion_inv r1 \<and>
      (\<forall>(c, u) \<in> set (chunks r1). region_coords ?m (fst c) (snd c) = Inr k)"
    using r(2-4) inv_lookup(1,3) [OF assms(1) r(1)] by (simp add: region_coords_update)
qed

lemma inv_unload:
  assumes "ChunkManager_inv m"
  shows "\<exists>g1 m1. ChunkManager_unload safe_area g m = Inr (g1, m1) \<and> ChunkManager_inv m1"
proof (cases safe_area)
  case None
  have "ChunkManager_inv (m\<lparr>chunk_temp := [], chunk_temp_set := {}, regions := []\<rparr>)"
    using assms by (simp add: ChunkManager_inv_def)
  with None show ?thesis
    by (simp add: ChunkManager_unload_def case_prod_beta)
next
  case (Some sa)
  obtain x0 z0 x1 z1 where sa: "sa = (x0, z0, x1, z1)"
    by (cases sa)
  let ?lo = "(x0 div region_size m, z0 div region_size m)"
  let ?hi = "(x1 div region_size m, z1 div region_size m)"
  obtain g1 regs1 where e: "ChunkManager_unload (Some (x0, z0, x1, z1)) g m =
      Inr (g1, m\<lparr>regions := filter (\<lambda>e. fst e \<notin>
              set (map fst (filter (\<lambda>a. \<not> in_box ?lo ?hi (snd a)) (regions m)))) regs1\<rparr>)"
    and rel: "list_all2 (\<lambda>a b. fst b = fst a \<and> evicted ?lo ?hi (snd a) (snd b)) (regions m) regs1"
    using eviction_spec [OF assms, of x0 z0 x1 z1 g] by blast
  have "ChunkManager_inv (m\<lparr>regions := filter (\<lambda>e. fst e \<notin>
              set (map fst (filter (\<lambda>a. \<not> in_box ?lo ?hi (snd a)) (regions m)))) regs1\<rparr>)"
    using assms rel by (rule inv_eviction)
  with e show ?thesis
    unfolding Some sa by blast
qed

lemma inv_run:
  assumes "ChunkManager_inv m"
  shows "\<exists>g1 m1. manager_run ops (g, m) = Inr (g1, m1) \<and> ChunkManager_inv m1"
  using assms
proof (induction ops arbitrary: g m)
  case Nil
  then show ?case by simp
next
  case (Cons x xs)
  have "\<exists>g1 m1. manager_step x (g, m) = Inr (g1, m1) \<and> ChunkManager_inv m1"
  proof (cases x)
    case (Submit u)
    then show ?thesis
      using Cons.prems by (simp add: inv_add)
  next
    case (Frame tm)
    then show ?thesis
      using inv_draw [OF Cons.prems] by simp
  next
    case (Evict safe_area)
    then show ?thesis
      using inv_unload [OF Cons.prems] by simp
  qed
  then obtain g1 m1 where "manager_step x (g, m) = Inr (g1, m1)" "ChunkManager_inv m1"
    by blast
  with Cons.IH [of m1 g1] show ?case
    by simp
qed

lemma inv_reachable:
  assumes "rsize \<noteq> 0"
  shows "\<exists>g1 m1. manager_run ops (g, ChunkManager_init ident rsize) = Inr (g1, m1) \<and>
           ChunkManager_inv m1"
  using inv_init [OF assms] by (rule inv_run)

text \<open>
  Claim C4. From a state that satisfies the invariant of the manager, \<^verbatim>\<open>unload\<close> with a
  safe area returns. The box is spanned by the region coordinates of the two corners of
  the rectangle. Every region of the map inside the box is still in the map, with its
  units and an empty pending list; every region outside the box is absent from the map,
  and the calls of its \<^verbatim>\<open>unload\<close> (the deletion of its vertex array, \<^verbatim>\<open>unload\<close> of each of
  its units) have been made; the map gains no region.
\<close>

theorem partial_eviction:
  assumes "ChunkManager_inv m"
  shows "\<exists>lo hi g1 m1.
           region_coords m x0 z0 = Inr lo \<and> region_coords m x1 z1 = Inr hi \<and>
           ChunkManager_unload (Some (x0, z0, x1, z1)) g m = Inr (g1, m1) \<and>
           (\<forall>(k, r) \<in> set (regions m).
              if in_box lo hi r
              then \<exists>r1. map_of (regions m1) k = Some r1 \<and> manual_chunks r1 = [] \<and> chunks r1 = chunks r
              else map_of (regions m1) k = None \<and> set (unload_calls r) \<subseteq> set (new_calls g g1)) \<and>
           fst ` set (regions m1) \<subseteq> fst ` set (regions m)"
proof -
  let ?lo = "(x0 div region_size m, z0 div region_size m)"
  let ?hi = "(x1 div region_size m, z1 div region_size m)"
  let ?D = "set (map fst (filter (\<lambda>a. \<not> in_box ?lo ?hi (snd a)) (regions m)))"
  have rs: "region_size m \<noteq> 0" and dist: "distinct (map fst (regions m))"
    using assms by (simp_all add: ChunkManager_inv_def)
  obtain g1 regs1 cs where e:
      "ChunkManager_unload (Some (x0, z0, x1, z1)) g m =
         Inr (g1, m\<lparr>regions := filter (\<lambda>e. fst e \<notin> ?D) regs1\<rparr>)"
      "list_all2 (\<lambda>a b. fst b = fst a \<and> evicted ?lo ?hi (snd a) (snd b)) (regions m) regs1"
      "calls g1 = calls g @ cs"
      "\<forall>(k, r) \<in> set (regions m). \<not> in_box ?lo ?hi r \<longrightarrow> set (unload_calls r) \<subseteq> set cs"
    using eviction_spec [OF assms, of x0 z0 x1 z1 g] by blast
  define m1 where "m1 = m\<lparr>regions := filter (\<lambda>e. fst e \<notin> ?D) regs1\<rparr>"
  have regs_m1: "regions m1 = filter (\<lambda>e. fst e \<notin> ?D) regs1"
    by (simp add: m1_def)
  have n: "new_calls g g1 = cs"
    using e(3) by (rule new_calls_append)
  have each: "if in_box ?lo ?hi r
      then \<exists>r1. map_of (regions m1) k = Some r1 \<and> manual_chunks r1 = [] \<and> chunks r1 = chunks r
      else map_of (regions m1) k = None \<and> set (unload_calls r) \<subseteq> set (new_calls g g1)"
    if kr: "(k, r) \<in> set (regions m)" for k r
  proof (cases "in_box ?lo ?hi r")
    case True
    from kr dist have look: "map_of (regions m) k = Some r"
      by simp
    with map_of_rel [OF e(2), of k] obtain r1 where r1: "map_of regs1 k = Some r1" "evicted ?lo ?hi r r1"
      by (auto simp: option_rel_Some1)
    with True look have "map_of (regions m1) k = Some r1"
      unfolding regs_m1 using eviction_lookup [OF dist e(2), of k r1] by (auto simp: evicted_def)
    with True r1(2) show ?thesis
      by (auto simp: evicted_def)
  next
    case False
    from kr dist have "map_of (regions m) k = Some r"
      by simp
    then have "map_of (regions m1) k = None"
      unfolding regs_m1 using dist False by (intro eviction_lookup_None) simp_all
    moreover have "set (unload_calls r) \<subseteq> set (new_calls g g1)"
      using False kr e(4) n by auto
    ultimately show ?thesis
      using False by simp
  qed
  have all: "\<forall>(k, r) \<in> set (regions m).
      if in_box ?lo ?hi r
      then \<exists>r1. map_of (regions m1) k = Some r1 \<and> manual_chunks r1 = [] \<and> chunks r1 = chunks r
      else map_of (regions m1) k = None \<and> set (unload_calls r) \<subseteq> set (new_calls g g1)"
  proof (rule ballI)
    fix a assume a: "a \<in> set (regions m)"
    obtain k r where kr: "a = (k, r)" by (cases a)
    show "case a of (k, r) \<Rightarrow>
      if in_box ?lo ?hi r
      then \<exists>r1. map_of (regions m1) k = Some r1 \<and> manual_chunks r1 = [] \<and> chunks r1 = chunks r
      else map_of (regions m1) k = None \<and> set (unload_calls r) \<subseteq> set (new_calls g g1)"
      unfolding kr prod.case using a kr by (intro each) simp
  qed
  have "fst ` set (filter (\<lambda>e. fst e \<notin> ?D) regs1) \<subseteq> fst ` set regs1"
    by auto
  also have "\<dots> = fst ` set (regions m)"
    using keys_rel [OF e(2)] by (metis set_map)
  finally have keys: "fst ` set (regions m1) \<subseteq> fst ` set (regions m)"
    unfolding regs_m1 .
  have rc: "region_coords m x0 z0 = Inr ?lo" "region_coords m x1 z1 = Inr ?hi"
    using rs by (simp_all add: region_coords_def)
  have u: "ChunkManager_unload (Some (x0, z0, x1, z1)) g m = Inr (g1, m1)"
    using e(1) by (simp add: m1_def)
  show ?thesis
    by (rule exI [of _ ?lo], rule exI [of _ ?hi], rule exI [of _ g1], rule exI [of _ m1])
      (intro conjI rc u all keys)
qed

theorem partial_eviction_witness:
  "ChunkManager_inv manager_1 \<and>
   (\<exists>g1 m1. ChunkManager_unload (Some (0, 0, 15, 15)) gl_init manager_1 = Inr (g1, m1) \<and>
      (\<exists>r1. map_of (regions m1) (0, 0) = Some r1 \<and> manual_chunks r1 = []) \<and>
      map_of (regions m1) (- 1, - 2) = None \<and>
      chunk_unload unit_D \<in> set (new_calls gl_init g1))"
proof -
  define rA where "rA = RenderRegion_add_render_chunk region_0 unit_A"
  define rD where "rD = RenderRegion_add_render_chunk (RenderRegion_init (- 1) (- 2) 16 ''world'') unit_D"
  have regs: "regions manager_1 = [((0, 0), rA), ((- 1, - 2), rD)]"
    by (simp add: manager_1_def rA_def rD_def)
  have rc: "region_coords manager_1 0 0 = Inr (0, 0)" "region_coords manager_1 15 15 = Inr (0, 0)"
    by (simp_all add: region_coords_def manager_1_def)
  have box: "in_box (0, 0) (0, 0) rA" "\<not> in_box (0, 0) (0, 0) rD"
    by (simp_all add: in_box_def rA_def rD_def RenderRegion_add_render_chunk_def region_0_def
        RenderRegion_init_def)
  have ud: "chunk_unload unit_D \<in> set (unload_calls rD)"
    by (simp add: unload_calls_def rD_def RenderRegion_add_render_chunk_def RenderRegion_init_def)
  obtain lo hi g1 m1 where p:
      "region_coords manager_1 0 0 = Inr lo" "region_coords manager_1 15 15 = Inr hi"
      "ChunkManager_unload (Some (0, 0, 15, 15)) gl_init manager_1 = Inr (g1, m1)"
      "\<forall>(k, r) \<in> set (regions manager_1).
         if in_box lo hi r
         then \<exists>r1. map_of (regions m1) k = Some r1 \<and> manual_chunks r1 = [] \<and> chunks r1 = chunks r
         else map_of (regions m1) k = None \<and> set (unload_calls r) \<subseteq> set (new_calls gl_init g1)"
    using partial_eviction [OF inv_manager_1, of 0 0 15 15 gl_init] by blast
  from p(1,2) rc have lh: "lo = (0, 0)" "hi = (0, 0)"
    by simp_all
  from p(4) have "(\<exists>r1. map_of (regions m1) (0, 0) = Some r1 \<and> manual_chunks r1 = [] \<and>
        chunks r1 = chunks rA) \<and>
      map_of (regions m1) (- 1, - 2) = None \<and> set (unload_calls rD) \<subseteq> set (new_calls gl_init g1)"
    unfolding regs lh using box by simp
  with ud p(3) inv_manager_1 show ?thesis
    by blast
qed

text \<open>
  Claim C10. From a state that satisfies the invariant of the manager, \<^verbatim>\<open>unload\<close> with a
  safe area returns and leaves the queue and the look-up set as they were; every queued
  unit's coordinate is still contained, wherever it lies; and the next draw call returns
  with every such unit routed to the region of its coordinate (created when the map has
  none), where it is pending and contained.
\<close>

theorem eviction_keeps_queue:
  assumes "ChunkManager_inv m"
  shows "\<exists>g1 m1. ChunkManager_unload (Some safe_area) g m = Inr (g1, m1) \<and>
           chunk_temp m1 = chunk_temp m \<and> chunk_temp_set m1 = chunk_temp_set m \<and>
           (\<forall>u \<in> set (chunk_temp m). ChunkManager_contains m1 (chunk_coords u) = Inr True) \<and>
           (\<exists>g2 m2. ChunkManager_draw tm g1 m1 = Inr (g2, m2) \<and>
              (\<forall>u \<in> set (chunk_temp m).
                 routed m2 u \<and> ChunkManager_contains m2 (chunk_coords u) = Inr True))"
proof -
  obtain x0 z0 x1 z1 where sa: "safe_area = (x0, z0, x1, z1)"
    by (cases safe_area)
  have rs: "region_size m \<noteq> 0"
    and queued: "\<forall>u \<in> set (chunk_temp m). chunk_coords u \<in> chunk_temp_set m"
    using assms by (simp_all add: ChunkManager_inv_def)
  obtain g1 regs where e: "ChunkManager_unload (Some safe_area) g m = Inr (g1, m\<lparr>regions := regs\<rparr>)"
    using eviction_spec [OF assms, of x0 z0 x1 z1 g] unfolding sa by blast
  define m1 where "m1 = m\<lparr>regions := regs\<rparr>"
  have m1: "region_size m1 = region_size m" "chunk_temp m1 = chunk_temp m"
      "chunk_temp_set m1 = chunk_temp_set m"
    by (simp_all add: m1_def)
  have u: "ChunkManager_unload (Some safe_area) g m = Inr (g1, m1)"
    using e by (simp add: m1_def)
  have c: "\<forall>u \<in> set (chunk_temp m). ChunkManager_contains m1 (chunk_coords u) = Inr True"
  proof
    fix u assume "u \<in> set (chunk_temp m)"
    with queued have "chunk_coords u \<in> chunk_temp_set m1"
      by (simp add: m1)
    with rs show "ChunkManager_contains m1 (chunk_coords u) = Inr True"
      by (intro contains_queued) (simp_all add: m1)
  qed
  have "region_size m1 \<noteq> 0"
    using rs by (simp add: m1)
  then obtain m2 where d: "ChunkManager_draw tm g1 m1 = Inr (fst (draw_regions tm g1 (regions m1)), m2)"
      "\<forall>u \<in> set (chunk_temp m1). routed m2 u"
    using draw_succeeds [of m1 tm g1] by blast
  have r: "\<forall>u \<in> set (chunk_temp m).
      routed m2 u \<and> ChunkManager_contains m2 (chunk_coords u) = Inr True"
  proof
    fix u assume "u \<in> set (chunk_temp m)"
    with d(2) have "routed m2 u"
      by (simp add: m1)
    then show "routed m2 u \<and> ChunkManager_contains m2 (chunk_coords u) = Inr True"
      by (simp add: routed_contains)
  qed
  have next_draw: "\<exists>g2 m2. ChunkManager_draw tm g1 m1 = Inr (g2, m2) \<and>
      (\<forall>u \<in> set (chunk_temp m). routed m2 u \<and> ChunkManager_contains m2 (chunk_coords u) = Inr True)"
    using d(1) r by blast
  show ?thesis
    by (rule exI [of _ g1], rule exI [of _ m1]) (intro conjI u m1 c next_draw)
qed

theorem eviction_keeps_queue_witness:
  "ChunkManager_inv manager_1 \<and>
   (\<exists>g1 m1. ChunkManager_unload (Some (0, 0, 15, 15)) gl_init manager_1 = Inr (g1, m1) \<and>
      chunk_temp m1 = [unit_C] \<and> ChunkManager_contains m1 (20, 0) = Inr True \<and>
      (\<exists>g2 m2. ChunkManager_draw (Camera 1) g1 m1 = Inr (g2, m2) \<and> routed m2 unit_C))"
proof -
  have q: "chunk_temp manager_1 = [unit_C]"
    by (simp add: manager_1_def)
  have c: "chunk_coords unit_C = (20, 0)"
    by (simp add: chunk_coords_def unit_C_def)
  show ?thesis
    using eviction_keeps_queue [OF inv_manager_1, of "(0, 0, 15, 15)" gl_init "Camera 1"] inv_manager_1
    by (auto simp: q c)
qed

end
